theory Spec2Isabelle
  imports Main "HOL-Library.AList"
begin

section \<open>JavaScript values\<close>

text \<open>
  The resource manager is dynamically typed: a configuration, a payload, a handler and a
  flag are all plain JavaScript values. The model keeps the kinds of value the code
  distinguishes. Numbers are the integers plus \<open>NaN\<close>; a function value is a reference:
  either the arrow function \<^verbatim>\<open>() => true\<close> that \<^verbatim>\<open>update\<close> installs as a default
  condition, or a function supplied by the caller, named by a number. Arrays and objects
  are identified with their contents; an object lists its own enumerable properties in
  insertion order, each key once (where a list repeats a key, its first entry is the
  property).
\<close>

datatype fnref = ArrowTrue | UserFn nat

datatype jsval =
    Undefined
  | Null
  | Bool bool
  | Num int
  | NaN
  | Str string
  | Arr "jsval list"
  | Obj "(string \<times> jsval) list"
  | Fun fnref

text \<open>ToBoolean, as used by \<^verbatim>\<open>||\<close>, \<^verbatim>\<open>&&\<close>, \<^verbatim>\<open>!\<close> and \<^verbatim>\<open>if\<close>.\<close>

fun truthy :: "jsval \<Rightarrow> bool" where
  "truthy Undefined = False"
| "truthy Null = False"
| "truthy (Bool b) = b"
| "truthy (Num n) = (n \<noteq> 0)"
| "truthy NaN = False"
| "truthy (Str s) = (s \<noteq> [])"
| "truthy (Arr xs) = True"
| "truthy (Obj kvs) = True"
| "truthy (Fun f) = True"

text \<open>\<^verbatim>\<open>a || b\<close>\<close>

definition js_or :: "jsval \<Rightarrow> jsval \<Rightarrow> jsval" where
  "js_or a b = (if truthy a then a else b)"

text \<open>\<^verbatim>\<open>a === b\<close>: equal values, except that \<open>NaN\<close> equals nothing.\<close>

definition strict_eq :: "jsval \<Rightarrow> jsval \<Rightarrow> bool" where
  "strict_eq a b = (a = b \<and> a \<noteq> NaN)"

fun is_nullish :: "jsval \<Rightarrow> bool" where
  "is_nullish Undefined = True"
| "is_nullish Null = True"
| "is_nullish v = False"

text \<open>
  \<^verbatim>\<open>v[k]\<close> for a value that is neither \<^verbatim>\<open>null\<close> nor \<^verbatim>\<open>undefined\<close> (the callers test that
  first: reading a property of those throws a TypeError). Only objects carry the
  properties the code reads; on every other value the read gives \<^verbatim>\<open>undefined\<close>.
\<close>

fun get_prop :: "jsval \<Rightarrow> string \<Rightarrow> jsval" where
  "get_prop (Obj kvs) k = (case map_of kvs k of Some v \<Rightarrow> v | None \<Rightarrow> Undefined)"
| "get_prop v k = Undefined"

fun is_array :: "jsval \<Rightarrow> bool" where
  "is_array (Arr xs) = True"
| "is_array v = False"

text \<open>
  One argument of \<^verbatim>\<open>Array.prototype.concat\<close>: an array contributes its elements, any
  other value contributes itself.
\<close>

fun concat_arg :: "jsval \<Rightarrow> jsval list" where
  "concat_arg (Arr xs) = xs"
| "concat_arg v = [v]"

text \<open>
  \<^verbatim>\<open>Array.prototype.join\<close>: \<^verbatim>\<open>undefined\<close> and \<^verbatim>\<open>null\<close> elements give the empty string, a
  string gives itself, and every other element is converted by the runtime's ToString,
  which is a parameter here.
\<close>

fun join_elem :: "(jsval \<Rightarrow> string) \<Rightarrow> jsval \<Rightarrow> string" where
  "join_elem tostr Undefined = []"
| "join_elem tostr Null = []"
| "join_elem tostr (Str s) = s"
| "join_elem tostr v = tostr v"

fun js_join :: "(jsval \<Rightarrow> string) \<Rightarrow> string \<Rightarrow> jsval list \<Rightarrow> string" where
  "js_join tostr sep [] = []"
| "js_join tostr sep [x] = join_elem tostr x"
| "js_join tostr sep (x # y # zs) = join_elem tostr x @ sep @ js_join tostr sep (y # zs)"

text \<open>
  \<^verbatim>\<open>Array.prototype.indexOf\<close>: the first index whose element is strictly equal to the
  value, or \<open>-1\<close>.
\<close>

fun indexOf_from :: "int \<Rightarrow> jsval list \<Rightarrow> jsval \<Rightarrow> int" where
  "indexOf_from i [] v = -1"
| "indexOf_from i (x # xs) v = (if strict_eq x v then i else indexOf_from (i + 1) xs v)"

definition indexOf :: "jsval list \<Rightarrow> jsval \<Rightarrow> int" where
  "indexOf xs v = indexOf_from 0 xs v"

text \<open>
  \<^verbatim>\<open>xs.splice(start, 1)\<close>, returning the array as it is left: a negative start counts
  from the end, the start is clamped to the array, and at most one element goes.
\<close>

definition splice1 :: "int \<Rightarrow> 'a list \<Rightarrow> 'a list" where
  "splice1 start xs =
     (let len = int (length xs);
          s = (if start < 0 then max (len + start) 0 else min start len)
      in take (nat s) xs @ drop (nat s + 1) xs)"

section \<open>Exceptions, function calls and the trace\<close>

datatype exn = JsError string | TypeError | Thrown jsval

datatype outcome = Returns jsval | Throws exn

text \<open>
  What the outside world sees, in order: a call of a caller-supplied function with its
  arguments, an exception written to the console, a request handed to the call
  collaborator, and a call of the resource's \<^verbatim>\<open>cancel\<close> hook.
\<close>

datatype event =
    Called nat "jsval list"
  | Logged exn
  | Request jsval jsval
  | Cancelled

type_synonym trace = "event list"

text \<open>
  A caller-supplied function is opaque. Its result may depend on its arguments and on
  everything that has happened so far; it does not reach back into the resource.
\<close>

type_synonym fenv = "trace \<Rightarrow> nat \<Rightarrow> jsval list \<Rightarrow> outcome"

fun invoke :: "fenv \<Rightarrow> fnref \<Rightarrow> jsval list \<Rightarrow> trace \<Rightarrow> outcome \<times> trace" where
  "invoke env ArrowTrue args t = (Returns (Bool True), t)"
| "invoke env (UserFn n) args t = (env t n args, t @ [Called n args])"

text \<open>A statement either completes or throws; both leave a state behind.\<close>

datatype 'a completion = Normal 'a | Abrupt exn 'a

fun forEach :: "('a \<Rightarrow> 's \<Rightarrow> 's completion) \<Rightarrow> 'a list \<Rightarrow> 's \<Rightarrow> 's completion" where
  "forEach f [] s = Normal s"
| "forEach f (x # xs) s =
     (case f x s of Normal s' \<Rightarrow> forEach f xs s' | Abrupt e s' \<Rightarrow> Abrupt e s')"

section \<open>Resource\<close>

record resource =
  vm :: jsval
  "method" :: jsval
  params :: jsval
  auto :: jsval
  keepData :: jsval
  condition :: jsval
  paged :: jsval
  listeners :: "(string \<times> jsval list) list"
  onceListeners :: "(string \<times> jsval list) list"
  data :: jsval
  error :: jsval
  loading :: bool
  lastLoaded :: "nat option"

text \<open>\<^verbatim>\<open>table[key] || []\<close> on a listener table, whose entries are arrays.\<close>

definition handlers_at :: "(string \<times> jsval list) list \<Rightarrow> string \<Rightarrow> jsval list" where
  "handlers_at tbl key = (case map_of tbl key of Some hs \<Rightarrow> hs | None \<Rightarrow> [])"

definition on :: "resource \<Rightarrow> string \<Rightarrow> jsval \<Rightarrow> resource" where
  "on r event handler =
     r\<lparr>listeners :=
         AList.update event (handlers_at (listeners r) event @ concat_arg handler) (listeners r)\<rparr>"

definition once :: "resource \<Rightarrow> string \<Rightarrow> jsval \<Rightarrow> resource" where
  "once r event handler =
     r\<lparr>onceListeners :=
         AList.update event (handlers_at (onceListeners r) event @ concat_arg handler)
           (onceListeners r)\<rparr>"

text \<open>
  The constructor option \<^verbatim>\<open>typeof options == 'string'\<close>: a bare string is sugar for a
  configuration with that method and \<^verbatim>\<open>auto: true\<close>.
\<close>

definition normalize_options :: "jsval \<Rightarrow> jsval" where
  "normalize_options options =
     (case options of
        Str s \<Rightarrow> Obj [(''method'', Str s), (''auto'', Bool True)]
      | _ \<Rightarrow> options)"

text \<open>
  \<^verbatim>\<open>Object.keys(options).filter(key => key.startsWith('on'))\<close>. Only an object has own
  keys that can start with \<^verbatim>\<open>on\<close> (an array's keys are its indices); integer-like keys,
  which \<^verbatim>\<open>Object.keys\<close> lists first, never pass the filter, so the keys that remain are
  in insertion order.
\<close>

definition listenerKeys :: "jsval \<Rightarrow> string list" where
  "listenerKeys options =
     (case options of
        Obj kvs \<Rightarrow> filter (\<lambda>key. take 2 key = ''on'') (map fst kvs)
      | _ \<Rightarrow> [])"

definition method_cannot_change :: exn where
  "method_cannot_change = JsError ''[Resource Manager]: method cannot change for the same resource''"

definition method_is_required :: exn where
  "method_is_required = JsError ''[Resource Manager]: method is required to define a resource''"

text \<open>
  \<^verbatim>\<open>update(options, initialValue)\<close>. Reading \<^verbatim>\<open>options.method\<close> or \<^verbatim>\<open>options.params\<close> of
  \<^verbatim>\<open>null\<close> or \<^verbatim>\<open>undefined\<close> is a TypeError; like the method check, it comes before the
  first assignment. \<^verbatim>\<open>this.method\<close> is never assigned here.
\<close>

definition update :: "resource \<Rightarrow> jsval \<Rightarrow> jsval \<Rightarrow> resource completion" where
  "update r options0 initialValue =
     (let options = normalize_options options0 in
      if is_nullish options then Abrupt TypeError r
      else if truthy (method r) \<and> truthy (get_prop options ''method'')
              \<and> \<not> strict_eq (get_prop options ''method'') (method r)
      then Abrupt method_cannot_change r
      else
        let r1 = r\<lparr>params := js_or (get_prop options ''params'') Null,
                   auto := js_or (get_prop options ''auto'') (Bool False),
                   keepData := js_or (get_prop options ''keepData'') (Bool False),
                   condition := js_or (get_prop options ''condition'') (Fun ArrowTrue),
                   paged := js_or (get_prop options ''paged'') (Bool False),
                   listeners := [],
                   onceListeners := []\<rparr>;
            r2 = foldl (\<lambda>r' key. on r' key (get_prop options key)) r1 (listenerKeys options)
        in Normal (r2\<lparr>data := js_or initialValue (js_or (get_prop options ''default'') Null),
                       error := Null,
                       loading := False,
                       lastLoaded := None\<rparr>))"

text \<open>
  \<^verbatim>\<open>new Resource(vm, options, initialValue)\<close>. The object starts with no field set; the
  fields \<^verbatim>\<open>update\<close> assigns are placeholders until it has run.
\<close>

definition blank :: "jsval \<Rightarrow> jsval \<Rightarrow> resource" where
  "blank v m =
     \<lparr>vm = v, method = m, params = Undefined, auto = Undefined, keepData = Undefined,
      condition = Undefined, paged = Undefined, listeners = [], onceListeners = [],
      data = Undefined, error = Undefined, loading = False, lastLoaded = None\<rparr>"

definition construct :: "jsval \<Rightarrow> jsval \<Rightarrow> jsval \<Rightarrow> exn + resource" where
  "construct v options0 initialValue =
     (let options = normalize_options (if options0 = Undefined then Obj [] else options0) in
      if is_nullish options then Inl TypeError
      else if \<not> truthy (get_prop options ''method'') then Inl method_is_required
      else
        (case update (blank v (get_prop options ''method'')) options initialValue of
           Normal r \<Rightarrow> Inr r
         | Abrupt e r \<Rightarrow> Inl e))"

subsection \<open>Events\<close>

text \<open>
  \<^verbatim>\<open>handler.call(vm, ...args)\<close>: a function is called with the arguments; an object whose
  own \<^verbatim>\<open>call\<close> property is a function has that function called with the host handle as
  first argument; anything else has no \<^verbatim>\<open>call\<close> method, which is a TypeError.
\<close>

definition handler_call ::
    "fenv \<Rightarrow> jsval \<Rightarrow> jsval list \<Rightarrow> jsval \<Rightarrow> trace \<Rightarrow> outcome \<times> trace" where
  "handler_call env v args handler t =
     (case handler of
        Fun f \<Rightarrow> invoke env f args t
      | Obj kvs \<Rightarrow>
          (case map_of kvs ''call'' of
             Some (Fun g) \<Rightarrow> invoke env g (v # args) t
           | _ \<Rightarrow> (Throws TypeError, t))
      | _ \<Rightarrow> (Throws TypeError, t))"

text \<open>The \<^verbatim>\<open>try\<close>/\<^verbatim>\<open>catch\<close> of \<^verbatim>\<open>runHandler\<close>: the exception goes to the console.\<close>

definition runHandler ::
    "fenv \<Rightarrow> jsval \<Rightarrow> jsval list \<Rightarrow> jsval \<Rightarrow> trace \<Rightarrow> trace completion" where
  "runHandler env v args handler t =
     (case handler_call env v args handler t of
        (Returns x, t') \<Rightarrow> Normal t'
      | (Throws e, t') \<Rightarrow> Normal (t' @ [Logged e]))"

text \<open>
  The second \<^verbatim>\<open>forEach\<close> of \<^verbatim>\<open>emit\<close> runs over the array that its callback splices.
  \<^verbatim>\<open>forEach\<close> reads the length once, before the first call, and then visits the indices
  \<open>0 .. len - 1\<close> in turn, skipping an index the array no longer has. The state of the
  loop is the array as it stands and the trace.
\<close>

function forEach_once ::
    "fenv \<Rightarrow> jsval \<Rightarrow> jsval list \<Rightarrow> nat \<Rightarrow> nat \<Rightarrow> jsval list \<times> trace
       \<Rightarrow> (jsval list \<times> trace) completion" where
  "forEach_once env v args len k (arr, t) =
     (if k < len then
        (if k < length arr then
           (case runHandler env v args (arr ! k) t of
              Normal t' \<Rightarrow>
                forEach_once env v args len (k + 1) (splice1 (indexOf arr (arr ! k)) arr, t')
            | Abrupt e t' \<Rightarrow> Abrupt e (arr, t'))
         else forEach_once env v args len (k + 1) (arr, t))
      else Normal (arr, t))"
  by pat_completeness auto
termination
  by (relation "measure (\<lambda>(env, v, args, len, k, s). len - k)") auto

definition emit ::
    "fenv \<Rightarrow> resource \<Rightarrow> string \<Rightarrow> jsval list \<Rightarrow> trace \<Rightarrow> (resource \<times> trace) completion" where
  "emit env r event args t =
     (let key = ''on'' @ event in
      case forEach (runHandler env (vm r) args) (handlers_at (listeners r) key) t of
        Abrupt e t1 \<Rightarrow> Abrupt e (r, t1)
      | Normal t1 \<Rightarrow>
          (case map_of (onceListeners r) key of
             None \<Rightarrow> Normal (r, t1)
           | Some arr \<Rightarrow>
               (case forEach_once env (vm r) args (length arr) 0 (arr, t1) of
                  Normal (arr', t2) \<Rightarrow>
                    Normal (r\<lparr>onceListeners := AList.update key arr' (onceListeners r)\<rparr>, t2)
                | Abrupt e (arr', t2) \<Rightarrow>
                    Abrupt e (r\<lparr>onceListeners := AList.update key arr' (onceListeners r)\<rparr>, t2))))"

subsection \<open>Fetching\<close>

text \<open>
  The call collaborator is outside this code: what it answers is an input. \<^verbatim>\<open>fetch\<close> is
  asynchronous; it runs up to the \<^verbatim>\<open>await\<close> when it is called (\<open>fetch_begin\<close>) and goes on
  when the collaborator has answered (\<open>fetch_resume\<close>). An exception that leaves an
  asynchronous function rejects the promise it returned.
\<close>

datatype call_result = Resolved jsval | Rejected jsval

datatype phase = Skipped | Awaiting | Failed exn

text \<open>\<^verbatim>\<open>this.condition()\<close>: calling a value that is not a function is a TypeError.\<close>

definition call_condition :: "fenv \<Rightarrow> resource \<Rightarrow> trace \<Rightarrow> outcome \<times> trace" where
  "call_condition env r t =
     (case condition r of
        Fun f \<Rightarrow> invoke env f [] t
      | _ \<Rightarrow> (Throws TypeError, t))"

definition fetch_begin :: "fenv \<Rightarrow> resource \<Rightarrow> trace \<Rightarrow> phase \<times> resource \<times> trace" where
  "fetch_begin env r t =
     (case call_condition env r t of
        (Throws e, t1) \<Rightarrow> (Failed e, r, t1)
      | (Returns c, t1) \<Rightarrow>
          if \<not> truthy c then (Skipped, r, t1)
          else (Awaiting, r\<lparr>loading := True\<rparr>, t1 @ [Request (method r) (params r)]))"

text \<open>
  \<^verbatim>\<open>error.messages.join('\n')\<close> in the \<^verbatim>\<open>catch\<close> block. An exception raised by the runtime
  is an Error object, which has no \<^verbatim>\<open>messages\<close>.
\<close>

definition newline :: string where
  "newline = [CHR 0x0A]"

definition error_messages :: "exn \<Rightarrow> exn + jsval" where
  "error_messages e =
     (case e of
        Thrown x \<Rightarrow> if is_nullish x then Inl TypeError else Inr (get_prop x ''messages'')
      | _ \<Rightarrow> Inr Undefined)"

definition join_messages ::
    "fenv \<Rightarrow> (jsval \<Rightarrow> string) \<Rightarrow> jsval \<Rightarrow> trace \<Rightarrow> outcome \<times> trace" where
  "join_messages env tostr messages t =
     (case messages of
        Arr xs \<Rightarrow> (Returns (Str (js_join tostr newline xs)), t)
      | Obj kvs \<Rightarrow>
          (case map_of kvs ''join'' of
             Some (Fun g) \<Rightarrow> invoke env g [Str newline] t
           | _ \<Rightarrow> (Throws TypeError, t))
      | _ \<Rightarrow> (Throws TypeError, t))"

definition fetch_try ::
    "fenv \<Rightarrow> call_result \<Rightarrow> resource \<Rightarrow> trace \<Rightarrow> (resource \<times> trace) completion" where
  "fetch_try env res r t =
     (case res of
        Rejected x \<Rightarrow> Abrupt (Thrown x) (r, t)
      | Resolved d \<Rightarrow>
          let r' = (if is_array d \<and> truthy (paged r)
                    then r\<lparr>data := Arr (concat_arg (js_or (data r) (Arr [])) @ concat_arg d)\<rparr>
                    else r\<lparr>data := d\<rparr>)
          in emit env r' ''Success'' [data r'] t)"

definition fetch_catch ::
    "fenv \<Rightarrow> (jsval \<Rightarrow> string) \<Rightarrow> exn \<Rightarrow> resource \<Rightarrow> trace \<Rightarrow> (resource \<times> trace) completion" where
  "fetch_catch env tostr e r t =
     (case error_messages e of
        Inl e' \<Rightarrow> Abrupt e' (r, t)
      | Inr messages \<Rightarrow>
          (case join_messages env tostr messages t of
             (Throws e', t') \<Rightarrow> Abrupt e' (r, t')
           | (Returns s, t') \<Rightarrow> emit env (r\<lparr>error := s\<rparr>) ''Error'' [s] t'))"

definition fetch_resume ::
    "fenv \<Rightarrow> (jsval \<Rightarrow> string) \<Rightarrow> nat \<Rightarrow> call_result \<Rightarrow> resource \<Rightarrow> trace
       \<Rightarrow> (resource \<times> trace) completion" where
  "fetch_resume env tostr now res r t =
     (case (case fetch_try env res r t of
              Normal s \<Rightarrow> Normal s
            | Abrupt e (r1, t1) \<Rightarrow> fetch_catch env tostr e r1 t1) of
        Abrupt e s \<Rightarrow> Abrupt e s
      | Normal (r2, t2) \<Rightarrow> Normal (r2\<lparr>lastLoaded := Some now, loading := False\<rparr>, t2))"

definition fetch ::
    "fenv \<Rightarrow> (jsval \<Rightarrow> string) \<Rightarrow> nat \<Rightarrow> call_result \<Rightarrow> resource \<Rightarrow> trace
       \<Rightarrow> (resource \<times> trace) completion" where
  "fetch env tostr now res r t =
     (case fetch_begin env r t of
        (Skipped, r1, t1) \<Rightarrow> Normal (r1, t1)
      | (Failed e, r1, t1) \<Rightarrow> Abrupt e (r1, t1)
      | (Awaiting, r1, t1) \<Rightarrow> fetch_resume env tostr now res r1 t1)"

text \<open>\<^verbatim>\<open>reload\<close> and \<^verbatim>\<open>submit\<close> return what \<^verbatim>\<open>fetch\<close> returns.\<close>

definition reload ::
    "fenv \<Rightarrow> (jsval \<Rightarrow> string) \<Rightarrow> nat \<Rightarrow> call_result \<Rightarrow> resource \<Rightarrow> trace
       \<Rightarrow> (resource \<times> trace) completion" where
  "reload = fetch"

definition submit ::
    "fenv \<Rightarrow> (jsval \<Rightarrow> string) \<Rightarrow> nat \<Rightarrow> call_result \<Rightarrow> resource \<Rightarrow> trace
       \<Rightarrow> (resource \<times> trace) completion" where
  "submit = fetch"

text \<open>\<^verbatim>\<open>cancel() {}\<close> changes nothing; the trace records that it was called.\<close>

definition cancel :: "resource \<Rightarrow> trace \<Rightarrow> resource \<times> trace" where
  "cancel r t = (r, t @ [Cancelled])"

section \<open>ResourceManager\<close>

text \<open>
  \<^verbatim>\<open>this.resources\<close> is a plain object used as a map from keys to resources; the order in
  which it lists its keys plays no part in \<^verbatim>\<open>updateResource\<close>. Being a plain object,
  \<^verbatim>\<open>key in this.resources\<close> also holds for the names it inherits from
  \<^verbatim>\<open>Object.prototype\<close>. What is found under such a name is not a Resource and has neither
  \<^verbatim>\<open>cancel\<close> nor \<^verbatim>\<open>update\<close>: the call is a TypeError.
\<close>

definition object_prototype_keys :: "string list" where
  "object_prototype_keys =
     [''constructor'', ''hasOwnProperty'', ''isPrototypeOf'', ''propertyIsEnumerable'',
      ''toLocaleString'', ''toString'', ''valueOf'', ''__proto__'',
      ''__defineGetter__'', ''__defineSetter__'', ''__lookupGetter__'', ''__lookupSetter__'']"

text \<open>
  \<^verbatim>\<open>updateResource\<close> from \<^verbatim>\<open>let oldData = resource.data\<close> on. The promise that
  \<^verbatim>\<open>resource.reload()\<close> returns is dropped: inside \<^verbatim>\<open>updateResource\<close> the fetch runs up
  to its \<^verbatim>\<open>await\<close>, and an exception there rejects that promise and does not reach the
  caller.
\<close>

definition updateResource_found ::
    "fenv \<Rightarrow> (string \<rightharpoonup> resource) \<Rightarrow> string \<Rightarrow> resource \<Rightarrow> jsval \<Rightarrow> jsval \<Rightarrow> trace
       \<Rightarrow> ((string \<rightharpoonup> resource) \<times> trace) completion" where
  "updateResource_found env resources key resource newValue oldValue t =
     (let oldData = data resource;
          (r0, t0) = (if truthy oldValue then cancel resource t else (resource, t))
      in case update r0 newValue Undefined of
           Abrupt e r1 \<Rightarrow> Abrupt e (resources(key \<mapsto> r1), t0)
         | Normal r1 \<Rightarrow>
             let r2 = (if truthy (keepData r1) then r1\<lparr>data := oldData\<rparr> else r1) in
             if truthy (auto r2)
             then (case fetch_begin env r2 t0 of
                     (ph, r3, t3) \<Rightarrow> Normal (resources(key \<mapsto> r3), t3))
             else Normal (resources(key \<mapsto> r2), t0))"

definition updateResource ::
    "fenv \<Rightarrow> jsval \<Rightarrow> (string \<rightharpoonup> resource) \<Rightarrow> string \<Rightarrow> jsval \<Rightarrow> jsval \<Rightarrow> trace
       \<Rightarrow> ((string \<rightharpoonup> resource) \<times> trace) completion" where
  "updateResource env v resources key newValue oldValue t =
     (case resources key of
        Some resource \<Rightarrow> updateResource_found env resources key resource newValue oldValue t
      | None \<Rightarrow>
          if key \<in> set object_prototype_keys then Abrupt TypeError (resources, t)
          else
            (case construct v newValue Undefined of
               Inl e \<Rightarrow> Abrupt e (resources, t)
             | Inr resource \<Rightarrow>
                 updateResource_found env (resources(key \<mapsto> resource)) key resource
                   newValue oldValue t))"

section \<open>Observing a run\<close>

text \<open>The calls of caller-supplied functions in a trace, in order.\<close>

fun calls :: "trace \<Rightarrow> (nat \<times> jsval list) list" where
  "calls [] = []"
| "calls (Called n args # t) = (n, args) # calls t"
| "calls (e # t) = calls t"

text \<open>
  The caller-supplied function that running a handler calls, with the arguments it gets:
  at most one, none for a value that cannot be called.
\<close>

definition target :: "jsval \<Rightarrow> jsval list \<Rightarrow> jsval \<Rightarrow> (nat \<times> jsval list) list" where
  "target v args handler =
     (case handler of
        Fun (UserFn n) \<Rightarrow> [(n, args)]
      | Obj kvs \<Rightarrow>
          (case map_of kvs ''call'' of
             Some (Fun (UserFn g)) \<Rightarrow> [(g, v # args)]
           | _ \<Rightarrow> [])
      | _ \<Rightarrow> [])"

text \<open>
  The one-shot handlers that one \<^verbatim>\<open>emit\<close> visits, and the array it leaves behind: the loop
  of \<open>forEach_once\<close> without the calls themselves.
\<close>

function once_visits :: "nat \<Rightarrow> nat \<Rightarrow> jsval list \<Rightarrow> jsval list \<times> jsval list" where
  "once_visits len k arr =
     (if k < len then
        (if k < length arr then
           (case once_visits len (k + 1) (splice1 (indexOf arr (arr ! k)) arr) of
              (arr', hs) \<Rightarrow> (arr', arr ! k # hs))
         else once_visits len (k + 1) arr)
      else (arr, []))"
  by pat_completeness auto
termination
  by (relation "measure (\<lambda>(len, k, arr). len - k)") auto

text \<open>All handlers one \<^verbatim>\<open>emit\<close> runs, in order, and the resource it leaves.\<close>

definition emit_visits :: "resource \<Rightarrow> string \<Rightarrow> jsval list" where
  "emit_visits r event =
     (let key = ''on'' @ event in
      handlers_at (listeners r) key
        @ (case map_of (onceListeners r) key of
             None \<Rightarrow> []
           | Some arr \<Rightarrow> snd (once_visits (length arr) 0 arr)))"

definition emit_leaves :: "resource \<Rightarrow> string \<Rightarrow> resource" where
  "emit_leaves r event =
     (let key = ''on'' @ event in
      case map_of (onceListeners r) key of
        None \<Rightarrow> r
      | Some arr \<Rightarrow>
          r\<lparr>onceListeners := AList.update key (fst (once_visits (length arr) 0 arr)) (onceListeners r)\<rparr>)"

text \<open>The payload a successful fetch stores.\<close>

definition next_data :: "resource \<Rightarrow> jsval \<Rightarrow> jsval" where
  "next_data r d =
     (if is_array d \<and> truthy (paged r)
      then Arr (concat_arg (js_or (data r) (Arr [])) @ concat_arg d)
      else d)"

text \<open>
  A trace in which every exception of a caller-supplied function is caught: whenever a call
  in it throws, the very next entry is that exception on the console. The first argument
  is what happened before.
\<close>

fun caught :: "fenv \<Rightarrow> trace \<Rightarrow> trace \<Rightarrow> bool" where
  "caught env p [] = True"
| "caught env p (Called n a # s) =
     (case env p n a of
        Throws e \<Rightarrow>
          (case s of
             Logged e' # s' \<Rightarrow> e' = e \<and> caught env (p @ [Called n a]) s
           | _ \<Rightarrow> False)
      | Returns x \<Rightarrow> caught env (p @ [Called n a]) s)"
| "caught env p (x # s) = caught env (p @ [x]) s"

subsection \<open>Sample values\<close>

text \<open>
  Handlers that return, handlers that throw, and the resource that
  \<^verbatim>\<open>new Resource(vm, {method: 'a'})\<close> builds.
\<close>

definition quiet :: fenv where
  "quiet t n args = Returns Undefined"

definition throwing :: fenv where
  "throwing t n args = Throws (Thrown (Str ''boom''))"

definition sample :: resource where
  "sample =
     \<lparr>vm = Obj [], method = Str ''a'', params = Null, auto = Bool False,
      keepData = Bool False, condition = Fun ArrowTrue, paged = Bool False,
      listeners = [], onceListeners = [], data = Null, error = Null, loading = False,
      lastLoaded = None\<rparr>"

definition two_handlers :: resource where
  "two_handlers = on (on sample ''onSuccess'' (Fun (UserFn 1))) ''onSuccess'' (Fun (UserFn 2))"

definition paged_sample :: resource where
  "paged_sample = sample\<lparr>paged := Bool True\<rparr>"

definition gated_sample :: resource where
  "gated_sample = sample\<lparr>condition := Fun (UserFn 3), data := Num 5, lastLoaded := Some 2\<rparr>"

definition kept_sample :: resource where
  "kept_sample = sample\<lparr>keepData := Bool True, data := Obj [(''x'', Num 1)]\<rparr>"

definition new_config :: jsval where
  "new_config =
     Obj [(''method'', Str ''a''), (''keepData'', Bool True), (''auto'', Bool True),
          (''params'', Obj [(''q'', Str ''tea'')])]"

definition kept_updated :: resource where
  "kept_updated =
     sample\<lparr>keepData := Bool True, auto := Bool True, params := Obj [(''q'', Str ''tea'')]\<rparr>"

section \<open>Auxiliary facts\<close>

declare once_visits.simps [simp del]

declare forEach_once.simps [simp del]

lemma calls_append: "calls (t @ u) = calls t @ calls u"
  by (induction t rule: calls.induct) simp_all

lemma handlers_at_update:
  "handlers_at (AList.update k hs tbl) k' = (if k' = k then hs else handlers_at tbl k')"
  by (simp add: handlers_at_def update_conv')

lemma invoke_calls:
  "invoke env f args t = (out, t') \<Longrightarrow>
     calls t' = calls t @ (case f of UserFn n \<Rightarrow> [(n, args)] | ArrowTrue \<Rightarrow> [])"
  by (cases f) (auto simp: calls_append)

lemma runHandler_calls:
  "\<exists>t'. runHandler env v args h t = Normal t' \<and> calls t' = calls t @ target v args h"
proof -
  obtain out t1 where hc: "handler_call env v args h t = (out, t1)"
    by (cases "handler_call env v args h t")
  have c: "calls t1 = calls t @ target v args h"
    using hc
    by (auto simp: handler_call_def target_def calls_append dest!: invoke_calls
             split: jsval.splits option.splits fnref.splits)
  show ?thesis
    using hc c by (cases out) (simp_all add: runHandler_def calls_append)
qed

lemma forEach_runHandler_calls:
  "\<exists>t'. forEach (runHandler env v args) hs t = Normal t'
        \<and> calls t' = calls t @ concat (map (target v args) hs)"
proof (induction hs arbitrary: t)
  case Nil
  show ?case by simp
next
  case (Cons h hs)
  obtain t1 where h1: "runHandler env v args h t = Normal t1"
    and c1: "calls t1 = calls t @ target v args h"
    using runHandler_calls by blast
  obtain t2 where h2: "forEach (runHandler env v args) hs t1 = Normal t2"
    and c2: "calls t2 = calls t1 @ concat (map (target v args) hs)"
    using Cons.IH by blast
  show ?case using h1 c1 h2 c2 by simp
qed

lemma forEach_once_visits:
  "\<exists>t'. forEach_once env v args len k (arr, t) = Normal (fst (once_visits len k arr), t')
        \<and> calls t' = calls t @ concat (map (target v args) (snd (once_visits len k arr)))"
proof (induction len k arr arbitrary: t rule: once_visits.induct)
  case (1 len k arr)
  show ?case
  proof (cases "k < len")
    case False
    then show ?thesis
      by (simp add: forEach_once.simps once_visits.simps)
  next
    case klen: True
    show ?thesis
    proof (cases "k < length arr")
      case False
      obtain t' where "forEach_once env v args len (k + 1) (arr, t)
            = Normal (fst (once_visits len (k + 1) arr), t')"
        and "calls t' = calls t @ concat (map (target v args) (snd (once_visits len (k + 1) arr)))"
        using "1.IH"(2) [OF klen False] by blast
      then show ?thesis
        using klen False
        by (subst forEach_once.simps, subst (1 2) once_visits.simps) simp
    next
      case True
      let ?arr = "splice1 (indexOf arr (arr ! k)) arr"
      obtain t1 where h1: "runHandler env v args (arr ! k) t = Normal t1"
        and c1: "calls t1 = calls t @ target v args (arr ! k)"
        using runHandler_calls by blast
      obtain t' where h2: "forEach_once env v args len (k + 1) (?arr, t1)
            = Normal (fst (once_visits len (k + 1) ?arr), t')"
        and c2: "calls t' = calls t1 @ concat (map (target v args) (snd (once_visits len (k + 1) ?arr)))"
        using "1.IH"(1) [OF klen True] by blast
      show ?thesis
        using klen True h1 c1 h2 c2
        by (subst forEach_once.simps, subst (1 2) once_visits.simps)
           (simp split: prod.splits)
    qed
  qed
qed

lemma emit_result:
  "\<exists>t'. emit env r event args t = Normal (emit_leaves r event, t')
        \<and> calls t' = calls t @ concat (map (target (vm r) args) (emit_visits r event))"
proof -
  let ?key = "''on'' @ event"
  obtain t1 where h1: "forEach (runHandler env (vm r) args) (handlers_at (listeners r) ?key) t = Normal t1"
    and c1: "calls t1 = calls t @ concat (map (target (vm r) args) (handlers_at (listeners r) ?key))"
    using forEach_runHandler_calls by blast
  show ?thesis
  proof (cases "map_of (onceListeners r) ?key")
    case None
    then show ?thesis
      using h1 c1 by (simp add: emit_def emit_leaves_def emit_visits_def)
  next
    case (Some arr)
    obtain t2 where h2: "forEach_once env (vm r) args (length arr) 0 (arr, t1)
          = Normal (fst (once_visits (length arr) 0 arr), t2)"
      and c2: "calls t2 = calls t1
          @ concat (map (target (vm r) args) (snd (once_visits (length arr) 0 arr)))"
      using forEach_once_visits by blast
    show ?thesis
      using Some h1 c1 h2 c2 by (simp add: emit_def emit_leaves_def emit_visits_def)
  qed
qed

lemma emit_leaves_fields:
  "vm (emit_leaves r event) = vm r"
  "method (emit_leaves r event) = method r"
  "params (emit_leaves r event) = params r"
  "auto (emit_leaves r event) = auto r"
  "keepData (emit_leaves r event) = keepData r"
  "condition (emit_leaves r event) = condition r"
  "paged (emit_leaves r event) = paged r"
  "listeners (emit_leaves r event) = listeners r"
  "data (emit_leaves r event) = data r"
  "error (emit_leaves r event) = error r"
  "loading (emit_leaves r event) = loading r"
  "lastLoaded (emit_leaves r event) = lastLoaded r"
  by (simp_all add: emit_leaves_def Let_def split: option.splits)

lemma fetch_begin_passes:
  "call_condition env r t = (Returns c, t1) \<Longrightarrow> truthy c \<Longrightarrow>
     fetch_begin env r t = (Awaiting, r\<lparr>loading := True\<rparr>, t1 @ [Request (method r) (params r)])"
  by (simp add: fetch_begin_def)

lemma fetch_begin_skips:
  "call_condition env r t = (Returns c, t1) \<Longrightarrow> \<not> truthy c \<Longrightarrow>
     fetch_begin env r t = (Skipped, r, t1)"
  by (simp add: fetch_begin_def)

lemma fetch_resume_resolved:
  "\<exists>t'. fetch_resume env tostr now (Resolved d) r t
        = Normal ((emit_leaves (r\<lparr>data := next_data r d\<rparr>) ''Success'')
                    \<lparr>lastLoaded := Some now, loading := False\<rparr>, t')
      \<and> calls t' = calls t @ concat (map (target (vm r) [next_data r d])
                                        (emit_visits (r\<lparr>data := next_data r d\<rparr>) ''Success''))"
proof -
  let ?r = "r\<lparr>data := next_data r d\<rparr>"
  obtain t' where e: "emit env ?r ''Success'' [data ?r] t = Normal (emit_leaves ?r ''Success'', t')"
    and c: "calls t' = calls t @ concat (map (target (vm ?r) [data ?r]) (emit_visits ?r ''Success''))"
    using emit_result by blast
  have "fetch_try env (Resolved d) r t = emit env ?r ''Success'' [data ?r] t"
    by (simp add: fetch_try_def next_data_def)
  then show ?thesis
    using e c by (simp add: fetch_resume_def)
qed

lemma fetch_resume_rejected:
  assumes "get_prop x ''messages'' = Arr ms"
  shows "\<exists>t'. fetch_resume env tostr now (Rejected x) r t
        = Normal ((emit_leaves (r\<lparr>error := Str (js_join tostr newline ms)\<rparr>) ''Error'')
                    \<lparr>lastLoaded := Some now, loading := False\<rparr>, t')
      \<and> emit env (r\<lparr>error := Str (js_join tostr newline ms)\<rparr>) ''Error''
            [Str (js_join tostr newline ms)] t
          = Normal (emit_leaves (r\<lparr>error := Str (js_join tostr newline ms)\<rparr>) ''Error'', t')"
proof -
  let ?s = "Str (js_join tostr newline ms)"
  let ?r = "r\<lparr>error := ?s\<rparr>"
  obtain t' where e: "emit env ?r ''Error'' [?s] t = Normal (emit_leaves ?r ''Error'', t')"
    using emit_result by blast
  have nn: "\<not> is_nullish x"
    using assms by (cases x) simp_all
  have "fetch_catch env tostr (Thrown x) r t = emit env ?r ''Error'' [?s] t"
    using assms nn by (simp add: fetch_catch_def error_messages_def join_messages_def)
  then show ?thesis
    using e by (simp add: fetch_resume_def fetch_try_def)
qed

lemma on_fields:
  "vm (on r k h) = vm r"
  "method (on r k h) = method r"
  "params (on r k h) = params r"
  "auto (on r k h) = auto r"
  "keepData (on r k h) = keepData r"
  "condition (on r k h) = condition r"
  "paged (on r k h) = paged r"
  "onceListeners (on r k h) = onceListeners r"
  by (simp_all add: on_def)

lemma foldl_on_fields:
  "vm (foldl (\<lambda>r' key. on r' key (f key)) r keys) = vm r"
  "method (foldl (\<lambda>r' key. on r' key (f key)) r keys) = method r"
  "params (foldl (\<lambda>r' key. on r' key (f key)) r keys) = params r"
  "auto (foldl (\<lambda>r' key. on r' key (f key)) r keys) = auto r"
  "keepData (foldl (\<lambda>r' key. on r' key (f key)) r keys) = keepData r"
  "condition (foldl (\<lambda>r' key. on r' key (f key)) r keys) = condition r"
  "paged (foldl (\<lambda>r' key. on r' key (f key)) r keys) = paged r"
  "onceListeners (foldl (\<lambda>r' key. on r' key (f key)) r keys) = onceListeners r"
  by (induction keys arbitrary: r; simp add: on_fields)+

lemma foldl_on_listeners:
  "handlers_at (listeners (foldl (\<lambda>r' key. on r' key (f key)) r keys)) K
     = handlers_at (listeners r) K
         @ concat (map (\<lambda>k. concat_arg (f k)) (filter (\<lambda>k. k = K) keys))"
proof (induction keys arbitrary: r)
  case Nil
  show ?case by simp
next
  case (Cons k keys)
  have "handlers_at (listeners (on r k (f k))) K
      = handlers_at (listeners r) K @ (if k = K then concat_arg (f k) else [])"
    by (simp add: on_def handlers_at_update)
  then show ?case
    using Cons.IH [of "on r k (f k)"] by simp
qed

lemma update_Normal:
  assumes "update r opts init = Normal r'"
  shows "vm r' = vm r"
    and "method r' = method r"
    and "params r' = js_or (get_prop (normalize_options opts) ''params'') Null"
    and "auto r' = js_or (get_prop (normalize_options opts) ''auto'') (Bool False)"
    and "keepData r' = js_or (get_prop (normalize_options opts) ''keepData'') (Bool False)"
    and "condition r' = js_or (get_prop (normalize_options opts) ''condition'') (Fun ArrowTrue)"
    and "paged r' = js_or (get_prop (normalize_options opts) ''paged'') (Bool False)"
    and "onceListeners r' = []"
    and "data r' = js_or init (js_or (get_prop (normalize_options opts) ''default'') Null)"
    and "error r' = Null"
    and "loading r' = False"
    and "lastLoaded r' = None"
    and "handlers_at (listeners r') K
           = concat (map (\<lambda>k. concat_arg (get_prop (normalize_options opts) k))
                      (filter (\<lambda>k. k = K) (listenerKeys (normalize_options opts))))"
proof -
  let ?o = "normalize_options opts"
  let ?r1 = "r\<lparr>params := js_or (get_prop ?o ''params'') Null,
                  auto := js_or (get_prop ?o ''auto'') (Bool False),
                  keepData := js_or (get_prop ?o ''keepData'') (Bool False),
                  condition := js_or (get_prop ?o ''condition'') (Fun ArrowTrue),
                  paged := js_or (get_prop ?o ''paged'') (Bool False),
                  listeners := [],
                  onceListeners := []\<rparr>"
  let ?r2 = "foldl (\<lambda>r' key. on r' key (get_prop ?o key)) ?r1 (listenerKeys ?o)"
  have r': "r' = ?r2\<lparr>data := js_or init (js_or (get_prop ?o ''default'') Null),
                        error := Null, loading := False, lastLoaded := None\<rparr>"
    using assms by (simp add: update_def Let_def split: if_splits)
  show "vm r' = vm r" "method r' = method r"
    "params r' = js_or (get_prop ?o ''params'') Null"
    "auto r' = js_or (get_prop ?o ''auto'') (Bool False)"
    "keepData r' = js_or (get_prop ?o ''keepData'') (Bool False)"
    "condition r' = js_or (get_prop ?o ''condition'') (Fun ArrowTrue)"
    "paged r' = js_or (get_prop ?o ''paged'') (Bool False)"
    "onceListeners r' = []"
    by (simp_all add: r' foldl_on_fields)
  show "data r' = js_or init (js_or (get_prop ?o ''default'') Null)"
    "error r' = Null" "loading r' = False" "lastLoaded r' = None"
    by (simp_all add: r')
  have "handlers_at (listeners ?r1) K = []"
    by (simp add: handlers_at_def)
  then show "handlers_at (listeners r') K
           = concat (map (\<lambda>k. concat_arg (get_prop ?o k))
                      (filter (\<lambda>k. k = K) (listenerKeys ?o)))"
    by (simp add: r' foldl_on_listeners)
qed

lemma get_prop_nullish: "is_nullish x \<Longrightarrow> get_prop x k = Undefined"
  by (cases x) simp_all

lemma update_succeeds:
  assumes "\<not> is_nullish (normalize_options opts)"
    and "\<not> (truthy (method r) \<and> truthy (get_prop (normalize_options opts) ''method'')
              \<and> \<not> strict_eq (get_prop (normalize_options opts) ''method'') (method r))"
  shows "\<exists>r'. update r opts init = Normal r'"
  using assms by (simp add: update_def Let_def)

lemma update_Abrupt:
  "update r opts init = Abrupt e r' \<Longrightarrow> r' = r"
  by (auto simp: update_def Let_def split: if_splits)

lemma once_fields:
  "listeners (once r k h) = listeners r"
  by (simp add: once_def)

lemma once_visits_empty: "once_visits 0 0 [] = ([], [])"
  by (simp add: once_visits.simps)

lemma emit_no_once:
  assumes "handlers_at (onceListeners r) (''on'' @ event) = []"
  shows "emit_leaves r event = r"
    and "emit_visits r event = handlers_at (listeners r) (''on'' @ event)"
  using assms
  by (auto simp: emit_leaves_def emit_visits_def handlers_at_def once_visits_empty update_triv
           split: option.splits)

lemma fetch_passes_resolved:
  assumes "call_condition env r t = (Returns c, t1)" and "truthy c"
  shows "\<exists>t'. fetch env tostr now (Resolved d) r t
            = Normal ((emit_leaves (r\<lparr>loading := True, data := next_data r d\<rparr>) ''Success'')
                        \<lparr>lastLoaded := Some now, loading := False\<rparr>, t')"
proof -
  let ?r = "r\<lparr>loading := True\<rparr>"
  have nd: "next_data ?r d = next_data r d"
    by (simp add: next_data_def)
  obtain t' where "fetch_resume env tostr now (Resolved d) ?r (t1 @ [Request (method r) (params r)])
        = Normal ((emit_leaves (?r\<lparr>data := next_data ?r d\<rparr>) ''Success'')
                    \<lparr>lastLoaded := Some now, loading := False\<rparr>, t')"
    using fetch_resume_resolved by blast
  then show ?thesis
    using fetch_begin_passes [OF assms] by (simp add: fetch_def nd)
qed

lemma fetch_passes_rejected:
  assumes "call_condition env r t = (Returns c, t1)" and "truthy c"
    and "get_prop x ''messages'' = Arr ms"
  shows "\<exists>t'. fetch env tostr now (Rejected x) r t
            = Normal ((emit_leaves (r\<lparr>loading := True, error := Str (js_join tostr newline ms)\<rparr>)
                         ''Error'')
                        \<lparr>lastLoaded := Some now, loading := False\<rparr>, t')
          \<and> emit env (r\<lparr>loading := True, error := Str (js_join tostr newline ms)\<rparr>) ''Error''
                [Str (js_join tostr newline ms)] (t1 @ [Request (method r) (params r)])
              = Normal (emit_leaves (r\<lparr>loading := True, error := Str (js_join tostr newline ms)\<rparr>)
                          ''Error'', t')"
  using fetch_resume_rejected [OF assms(3), of env tostr now "r\<lparr>loading := True\<rparr>"
          "t1 @ [Request (method r) (params r)]"]
    fetch_begin_passes [OF assms(1,2)]
  by (simp add: fetch_def)

lemma normalize_options_Obj: "normalize_options (Obj kvs) = Obj kvs"
  by (simp add: normalize_options_def)

lemma filter_eq_distinct:
  "distinct xs \<Longrightarrow> filter (\<lambda>k. k = K) xs = (if K \<in> set xs then [K] else [])"
  by (induction xs) auto

lemma listeners_after_update:
  assumes "update r opts init = Normal r'"
    and "normalize_options opts = Obj kvs"
    and "distinct (map fst kvs)"
  shows "handlers_at (listeners r') K
           = (if take 2 K = ''on''
              then (case map_of kvs K of Some h \<Rightarrow> concat_arg h | None \<Rightarrow> [])
              else [])"
proof -
  have keys: "filter (\<lambda>k. k = K) (listenerKeys (Obj kvs))
      = (if take 2 K = ''on'' \<and> K \<in> set (map fst kvs) then [K] else [])"
    using filter_eq_distinct [of "filter (\<lambda>key. take 2 key = ''on'') (map fst kvs)" K] assms(3)
    by (simp add: listenerKeys_def)
  have hs: "handlers_at (listeners r') K
      = concat (map (\<lambda>k. concat_arg (get_prop (Obj kvs) k))
                 (if take 2 K = ''on'' \<and> K \<in> set (map fst kvs) then [K] else []))"
    using update_Normal(13) [OF assms(1), of K] assms(2) keys by simp
  show ?thesis
  proof (cases "map_of kvs K")
    case None
    then have "K \<notin> set (map fst kvs)"
      by (simp add: map_of_eq_None_iff)
    then show ?thesis
      using hs None by simp
  next
    case (Some h)
    then have "K \<in> set (map fst kvs)"
      using map_of_eq_None_iff [of kvs K] by simp
    then show ?thesis
      using hs Some by simp
  qed
qed

lemma normalize_options_idem:
  "normalize_options (normalize_options opts) = normalize_options opts"
  by (cases opts) (simp_all add: normalize_options_def)

lemma invoke_extends:
  "invoke env f args t = (out, t') \<Longrightarrow> \<exists>u. t' = t @ u"
  by (cases f) auto

lemma call_condition_extends:
  "call_condition env r t = (out, t') \<Longrightarrow> \<exists>u. t' = t @ u"
  by (auto simp: call_condition_def split: jsval.splits dest: invoke_extends)

lemma fetch_begin_result:
  assumes "fetch_begin env r t = (ph, r', t')"
  shows "(r' = r \<or> r' = r\<lparr>loading := True\<rparr>) \<and> (\<exists>u. t' = t @ u)"
proof -
  obtain out t1 where cc: "call_condition env r t = (out, t1)"
    by (cases "call_condition env r t")
  obtain u where "t1 = t @ u"
    using call_condition_extends [OF cc] by blast
  then show ?thesis
    using assms cc by (cases out) (auto simp: fetch_begin_def split: if_splits)
qed

lemma foldl_on_as_update:
  "foldl (\<lambda>r' key. on r' key (f key)) r keys
     = r\<lparr>listeners :=
          foldl (\<lambda>tbl key. AList.update key (handlers_at tbl key @ concat_arg (f key)) tbl)
            (listeners r) keys\<rparr>"
  by (induction keys arbitrary: r) (simp_all add: on_def)

lemma update_twice:
  assumes "update r0 opts init = Normal r"
  shows "update r opts init = Normal r"
proof -
  let ?o = "normalize_options opts"
  let ?R = "r0\<lparr>params := js_or (get_prop ?o ''params'') Null,
                auto := js_or (get_prop ?o ''auto'') (Bool False),
                keepData := js_or (get_prop ?o ''keepData'') (Bool False),
                condition := js_or (get_prop ?o ''condition'') (Fun ArrowTrue),
                paged := js_or (get_prop ?o ''paged'') (Bool False),
                listeners :=
                  foldl (\<lambda>tbl key. AList.update key
                            (handlers_at tbl key @ concat_arg (get_prop ?o key)) tbl)
                    [] (listenerKeys ?o),
                onceListeners := [],
                data := js_or init (js_or (get_prop ?o ''default'') Null),
                error := Null, loading := False, lastLoaded := None\<rparr>"
  have ok: "\<not> is_nullish ?o"
    "\<not> (truthy (method r0) \<and> truthy (get_prop ?o ''method'')
        \<and> \<not> strict_eq (get_prop ?o ''method'') (method r0))"
    using assms by (auto simp: update_def Let_def split: if_splits)
  have "update r0 opts init = Normal ?R"
    using ok by (simp add: update_def Let_def foldl_on_as_update)
  then have r: "r = ?R"
    using assms by simp
  have "update ?R opts init = Normal ?R"
    using ok by (simp add: update_def Let_def foldl_on_as_update)
  then show ?thesis
    unfolding r .
qed

lemma updateResource_found_Normal:
  assumes "update r nv Undefined = Normal r1"
  shows "\<exists>r' t'.
      updateResource_found env rs key r nv ov t = Normal (rs(key \<mapsto> r'), t')
    \<and> (if truthy (auto r1)
        then (\<exists>ph. fetch_begin env
                (if truthy (keepData r1) then r1\<lparr>data := data r\<rparr> else r1)
                (if truthy ov then t @ [Cancelled] else t) = (ph, r', t'))
        else r' = (if truthy (keepData r1) then r1\<lparr>data := data r\<rparr> else r1)
           \<and> t' = (if truthy ov then t @ [Cancelled] else t))"
proof -
  let ?r2 = "if truthy (keepData r1) then r1\<lparr>data := data r\<rparr> else r1"
  let ?t0 = "if truthy ov then t @ [Cancelled] else t"
  show ?thesis
  proof (cases "truthy (auto r1)")
    case False
    then show ?thesis
      using assms by (simp add: updateResource_found_def cancel_def)
  next
    case True
    obtain ph r3 t3 where fb: "fetch_begin env ?r2 ?t0 = (ph, r3, t3)"
      by (cases "fetch_begin env ?r2 ?t0") auto
    have "updateResource_found env rs key r nv ov t = Normal (rs(key \<mapsto> r3), t3)"
      using assms True fb by (auto simp: updateResource_found_def cancel_def)
    then show ?thesis
      using True fb by auto
  qed
qed

lemma updateResource_found_fields:
  assumes upd: "update r0 nv Undefined = Normal r2"
  shows "\<exists>r' t'.
        updateResource_found env rs key r0 nv ov t = Normal (rs(key \<mapsto> r'), t')
      \<and> method r' = method r0
      \<and> params r' = params r2
      \<and> data r' = (if truthy (keepData r2) then data r0 else data r2)
      \<and> (truthy ov \<longrightarrow> (\<exists>u. t' = t @ Cancelled # u))
      \<and> (if truthy (auto r2)
          then (\<exists>ph. fetch_begin env
                  (if truthy (keepData r2) then r2\<lparr>data := data r0\<rparr> else r2)
                  (if truthy ov then t @ [Cancelled] else t) = (ph, r', t'))
          else r' = (if truthy (keepData r2) then r2\<lparr>data := data r0\<rparr> else r2)
             \<and> t' = (if truthy ov then t @ [Cancelled] else t))"
proof -
  let ?t0 = "if truthy ov then t @ [Cancelled] else t"
  let ?r = "if truthy (keepData r2) then r2\<lparr>data := data r0\<rparr> else r2"
  obtain r' t' where res: "updateResource_found env rs key r0 nv ov t
        = Normal (rs(key \<mapsto> r'), t')"
    and how: "if truthy (auto r2)
        then (\<exists>ph. fetch_begin env ?r ?t0 = (ph, r', t'))
        else r' = ?r \<and> t' = ?t0"
    using updateResource_found_Normal [OF upd, of env rs key ov t] by blast
  have shape: "(r' = ?r \<or> r' = ?r\<lparr>loading := True\<rparr>) \<and> (\<exists>u. t' = ?t0 @ u)"
  proof (cases "truthy (auto r2)")
    case True
    then obtain ph where "fetch_begin env ?r ?t0 = (ph, r', t')"
      using how by auto
    then show ?thesis
      by (rule fetch_begin_result)
  next
    case False
    then show ?thesis
      using how by simp
  qed
  have m: "method r2 = method r0"
    using update_Normal(2) [OF upd] .
  have f1: "method r' = method r0"
    using shape m by auto
  have f2: "params r' = params r2"
    using shape by auto
  have f3: "data r' = (if truthy (keepData r2) then data r0 else data r2)"
    using shape by auto
  have f4: "truthy ov \<longrightarrow> (\<exists>u. t' = t @ Cancelled # u)"
    using shape by auto
  show ?thesis
    apply (rule exI [of _ r'])
    apply (rule exI [of _ t'])
    apply (intro conjI)
         apply (rule res)
        apply (rule f1)
       apply (rule f2)
      apply (rule f3)
     apply (rule f4)
    apply (rule how)
    done
qed

text \<open>
  What \<^verbatim>\<open>updateResource\<close> does for a registered key, and for a key that is neither
  registered nor a name every object inherits. A registered key has its entry updated in
  place: \<^verbatim>\<open>cancel\<close> is called first when \<^verbatim>\<open>oldValue\<close> is truthy, the payload afterwards is
  the one held before when the new \<^verbatim>\<open>keepData\<close> flag is truthy, and a fetch is started when
  the new \<^verbatim>\<open>auto\<close> flag is truthy. Otherwise a resource constructed from \<^verbatim>\<open>newValue\<close> is
  registered under the key and a fetch is started on it when its \<^verbatim>\<open>auto\<close> flag is truthy.
\<close>

lemma updateResource_registered:
  assumes here: "resources key = Some r" and upd: "update r nv Undefined = Normal r1"
  shows "\<exists>r' t'.
          updateResource env v resources key nv ov t = Normal (resources(key \<mapsto> r'), t')
        \<and> method r' = method r
        \<and> params r' = params r1
        \<and> data r' = (if truthy (keepData r1) then data r else data r1)
        \<and> (truthy ov \<longrightarrow> (\<exists>u. t' = t @ Cancelled # u))
        \<and> (if truthy (auto r1)
            then (\<exists>ph. fetch_begin env
                    (if truthy (keepData r1) then r1\<lparr>data := data r\<rparr> else r1)
                    (if truthy ov then t @ [Cancelled] else t) = (ph, r', t'))
            else r' = (if truthy (keepData r1) then r1\<lparr>data := data r\<rparr> else r1)
               \<and> t' = (if truthy ov then t @ [Cancelled] else t))"
proof -
  have "updateResource env v resources key nv ov t
      = updateResource_found env resources key r nv ov t"
    using here by (simp add: updateResource_def)
  then show ?thesis
    using updateResource_found_fields [OF upd, of env resources key ov t] by simp
qed

lemma updateResource_unregistered:
  assumes absent: "resources key = None" and np: "key \<notin> set object_prototype_keys"
    and built: "construct v nv Undefined = Inr r"
  shows "\<exists>t' r'.
          updateResource env v resources key nv ov t = Normal (resources(key \<mapsto> r'), t')
        \<and> method r' = method r
        \<and> (if truthy (auto r)
            then (\<exists>ph. fetch_begin env r (if truthy ov then t @ [Cancelled] else t) = (ph, r', t'))
            else r' = r \<and> t' = (if truthy ov then t @ [Cancelled] else t))"
proof -
  let ?t0 = "if truthy ov then t @ [Cancelled] else t"
  let ?rs = "resources(key \<mapsto> r)"
  have nu: "nv \<noteq> Undefined"
    using built by (auto simp: construct_def Let_def normalize_options_def)
  obtain r0 where "update r0 (normalize_options nv) Undefined = Normal r"
    using built nu by (auto simp: construct_def Let_def split: if_splits completion.splits)
  then have "update r0 nv Undefined = Normal r"
    by (simp add: update_def normalize_options_idem)
  then have upd: "update r nv Undefined = Normal r"
    by (rule update_twice)
  obtain r' t' where res: "updateResource_found env ?rs key r nv ov t
        = Normal (?rs(key \<mapsto> r'), t')"
    and f1: "method r' = method r"
    and how: "if truthy (auto r)
          then (\<exists>ph. fetch_begin env
                  (if truthy (keepData r) then r\<lparr>data := data r\<rparr> else r) ?t0 = (ph, r', t'))
          else r' = (if truthy (keepData r) then r\<lparr>data := data r\<rparr> else r) \<and> t' = ?t0"
    using updateResource_found_fields [OF upd, of env ?rs key ov t] by blast
  have how': "if truthy (auto r)
          then (\<exists>ph. fetch_begin env r ?t0 = (ph, r', t'))
          else r' = r \<and> t' = ?t0"
  proof -
    have same: "(if truthy (keepData r) then r\<lparr>data := data r\<rparr> else r) = r"
      by simp
    show ?thesis
      using how unfolding same .
  qed
  have g1: "updateResource env v resources key nv ov t = Normal (resources(key \<mapsto> r'), t')"
    using absent np built res by (simp add: updateResource_def)
  show ?thesis
    apply (rule exI [of _ t'])
    apply (rule exI [of _ r'])
    apply (intro conjI)
      apply (rule g1)
     apply (rule f1)
    apply (rule how')
    done
qed

lemma update_kept_sample:
  "update kept_sample new_config Undefined = Normal kept_updated"
  by (simp add: update_def kept_sample_def kept_updated_def new_config_def sample_def
        normalize_options_def listenerKeys_def js_or_def strict_eq_def)

lemma construct_from_string:
  "construct (Obj []) (Str ''a'') Undefined = Inr (sample\<lparr>auto := Bool True\<rparr>)"
  by (simp add: construct_def update_def sample_def normalize_options_def listenerKeys_def
        js_or_def strict_eq_def blank_def)

text \<open>
  Two runs: a resource holding \<^verbatim>\<open>{x: 1}\<close> gets new \<^verbatim>\<open>params\<close> with \<^verbatim>\<open>keepData\<close> and
  \<^verbatim>\<open>auto\<close> set, and keeps its payload while the reload starts; an unknown key given a bare
  method string gets a fresh resource, which reloads.
\<close>

lemma updateResource_kept_sample:
  "updateResource quiet (Obj []) [''search'' \<mapsto> kept_sample] ''search'' new_config
       (Obj [(''method'', Str ''a'')]) []
     = Normal ([''search'' \<mapsto> kept_updated\<lparr>data := Obj [(''x'', Num 1)], loading := True\<rparr>],
               [Cancelled, Request (Str ''a'') (Obj [(''q'', Str ''tea'')])])"
proof -
  have fb: "fetch_begin quiet (kept_updated\<lparr>data := Obj [(''x'', Num 1)]\<rparr>) [Cancelled]
      = (Awaiting, kept_updated\<lparr>data := Obj [(''x'', Num 1)], loading := True\<rparr>,
         [Cancelled, Request (Str ''a'') (Obj [(''q'', Str ''tea'')])])"
    by (simp add: fetch_begin_def call_condition_def kept_updated_def sample_def)
  have v: "truthy (auto kept_updated)" "truthy (keepData kept_updated)"
    "data kept_sample = Obj [(''x'', Num 1)]"
    by (simp_all add: kept_updated_def kept_sample_def)
  show ?thesis
    by (simp add: updateResource_def updateResource_found_def cancel_def update_kept_sample v fb)
qed

lemma updateResource_from_string:
  "updateResource quiet (Obj []) Map.empty ''list'' (Str ''a'') Undefined []
     = Normal ([''list'' \<mapsto> sample\<lparr>auto := Bool True, loading := True\<rparr>],
               [Request (Str ''a'') Null])"
proof -
  have fb: "fetch_begin quiet (sample\<lparr>auto := Bool True\<rparr>) []
      = (Awaiting, sample\<lparr>auto := Bool True, loading := True\<rparr>, [Request (Str ''a'') Null])"
    by (simp add: fetch_begin_def call_condition_def sample_def)
  have u: "update (sample\<lparr>auto := Bool True\<rparr>) (Str ''a'') Undefined
      = Normal (sample\<lparr>auto := Bool True\<rparr>)"
    by (simp add: update_def sample_def normalize_options_def listenerKeys_def
          js_or_def strict_eq_def)
  have v: "truthy (auto (sample\<lparr>auto := Bool True\<rparr>))"
    "\<not> truthy (keepData (sample\<lparr>auto := Bool True\<rparr>))"
    by (simp_all add: sample_def)
  have np: "''list'' \<notin> set object_prototype_keys"
    by (simp add: object_prototype_keys_def)
  show ?thesis
    by (simp add: updateResource_def updateResource_found_def construct_from_string u v fb np)
qed

lemma set_splice1: "set (splice1 i xs) \<subseteq> set xs"
  using set_take_subset [of _ xs] set_drop_subset [of _ xs]
  by (auto simp: splice1_def Let_def)

lemma once_visits_subset:
  "set (fst (once_visits len k arr)) \<subseteq> set arr \<and> set (snd (once_visits len k arr)) \<subseteq> set arr"
proof (induction len k arr rule: once_visits.induct)
  case (1 len k arr)
  show ?case
  proof (cases "k < len")
    case False
    then show ?thesis
      by (simp add: once_visits.simps)
  next
    case klen: True
    show ?thesis
    proof (cases "k < length arr")
      case False
      then show ?thesis
        using "1.IH"(2) [OF klen False] klen by (subst (1 2) once_visits.simps) simp
    next
      case True
      let ?arr = "splice1 (indexOf arr (arr ! k)) arr"
      have sub: "set ?arr \<subseteq> set arr"
        by (rule set_splice1)
      have here: "arr ! k \<in> set arr"
        using True by simp
      show ?thesis
        using "1.IH"(1) [OF klen True] klen True sub here
        by (subst (1 2) once_visits.simps) (auto split: prod.splits)
    qed
  qed
qed

lemma emit_visits_split:
  "\<exists>vs. emit_visits r event = handlers_at (listeners r) (''on'' @ event) @ vs
        \<and> set vs \<subseteq> set (handlers_at (onceListeners r) (''on'' @ event))"
proof (cases "map_of (onceListeners r) (''on'' @ event)")
  case None
  then show ?thesis
    by (simp add: emit_visits_def)
next
  case (Some arr)
  have "set (snd (once_visits (length arr) 0 arr)) \<subseteq> set arr"
    using once_visits_subset by blast
  then show ?thesis
    using Some by (simp add: emit_visits_def handlers_at_def)
qed

lemma emit_leaves_once_subset:
  "set (handlers_at (onceListeners (emit_leaves r event)) (''on'' @ event))
     \<subseteq> set (handlers_at (onceListeners r) (''on'' @ event))"
proof (cases "map_of (onceListeners r) (''on'' @ event)")
  case None
  then show ?thesis
    by (simp add: emit_leaves_def)
next
  case (Some arr)
  have "set (fst (once_visits (length arr) 0 arr)) \<subseteq> set arr"
    using once_visits_subset by blast
  then show ?thesis
    using Some by (simp add: emit_leaves_def handlers_at_update) (simp add: handlers_at_def)
qed

lemma caught_append:
  "caught env p u \<Longrightarrow> caught env (p @ u) w \<Longrightarrow> caught env p (u @ w)"
proof (induction env p u rule: caught.induct)
  case (2 env p n a s)
  show ?case
  proof (cases "env p n a")
    case (Returns x)
    then show ?thesis
      using 2 by simp
  next
    case (Throws e)
    then obtain s' where s: "s = Logged e # s'"
      using "2.prems"(1) by (auto split: list.splits event.splits)
    then show ?thesis
      using 2 Throws by simp
  qed
qed simp_all

lemma invoke_trace:
  "invoke env f args t = (out, t') \<Longrightarrow>
     (f = ArrowTrue \<and> t' = t \<and> out = Returns (Bool True))
   \<or> (\<exists>n. f = UserFn n \<and> t' = t @ [Called n args] \<and> out = env t n args)"
  by (cases f) auto

lemma runHandler_trace:
  "\<exists>u. runHandler env v args h t = Normal (t @ u) \<and> caught env t u
       \<and> calls u = target v args h"
proof -
  obtain out t1 where hc: "handler_call env v args h t = (out, t1)"
    by (cases "handler_call env v args h t")
  have shape: "(t1 = t \<and> target v args h = [] \<and> (out = Returns (Bool True) \<or> out = Throws TypeError))
      \<or> (\<exists>n a. t1 = t @ [Called n a] \<and> target v args h = [(n, a)] \<and> env t n a = out)"
    using hc
    by (auto simp: handler_call_def target_def dest!: invoke_trace
             split: jsval.splits option.splits fnref.splits)
  then show ?thesis
  proof (elim disjE conjE exE)
    assume a: "t1 = t" "target v args h = []" and "out = Returns (Bool True)"
    then have "runHandler env v args h t = Normal (t @ [])"
      using hc by (simp add: runHandler_def)
    moreover have "caught env t []" "calls [] = target v args h"
      using a by simp_all
    ultimately show ?thesis by blast
  next
    assume a: "t1 = t" "target v args h = []" and "out = Throws TypeError"
    then have "runHandler env v args h t = Normal (t @ [Logged TypeError])"
      using hc by (simp add: runHandler_def)
    moreover have "caught env t [Logged TypeError]" "calls [Logged TypeError] = target v args h"
      using a by simp_all
    ultimately show ?thesis by blast
  next
    fix n a
    assume a: "t1 = t @ [Called n a]" "target v args h = [(n, a)]" and e: "env t n a = out"
    show ?thesis
    proof (cases out)
      case (Returns x)
      then have "runHandler env v args h t = Normal (t @ [Called n a])"
        using hc a by (simp add: runHandler_def)
      moreover have "caught env t [Called n a]" "calls [Called n a] = target v args h"
        using a e Returns by simp_all
      ultimately show ?thesis by blast
    next
      case (Throws x)
      then have "runHandler env v args h t = Normal (t @ [Called n a, Logged x])"
        using hc a by (simp add: runHandler_def)
      moreover have "caught env t [Called n a, Logged x]"
        "calls [Called n a, Logged x] = target v args h"
        using a e Throws by simp_all
      ultimately show ?thesis by blast
    qed
  qed
qed

lemma forEach_runHandler_trace:
  "\<exists>u. forEach (runHandler env v args) hs t = Normal (t @ u) \<and> caught env t u
       \<and> calls u = concat (map (target v args) hs)"
proof (induction hs arbitrary: t)
  case Nil
  show ?case by simp
next
  case (Cons h hs)
  obtain u1 where h1: "runHandler env v args h t = Normal (t @ u1)"
    and g1: "caught env t u1" and c1: "calls u1 = target v args h"
    using runHandler_trace by blast
  obtain u2 where h2: "forEach (runHandler env v args) hs (t @ u1) = Normal ((t @ u1) @ u2)"
    and g2: "caught env (t @ u1) u2" and c2: "calls u2 = concat (map (target v args) hs)"
    using Cons.IH by blast
  have "forEach (runHandler env v args) (h # hs) t = Normal (t @ (u1 @ u2))"
    using h1 h2 by simp
  moreover have "caught env t (u1 @ u2)"
    using g1 g2 by (rule caught_append)
  moreover have "calls (u1 @ u2) = concat (map (target v args) (h # hs))"
    using c1 c2 by (simp add: calls_append)
  ultimately show ?case by blast
qed

lemma forEach_once_trace:
  "\<exists>u. forEach_once env v args len k (arr, t) = Normal (fst (once_visits len k arr), t @ u)
       \<and> caught env t u
       \<and> calls u = concat (map (target v args) (snd (once_visits len k arr)))"
proof (induction len k arr arbitrary: t rule: once_visits.induct)
  case (1 len k arr)
  show ?case
  proof (cases "k < len")
    case False
    then have "forEach_once env v args len k (arr, t) = Normal (fst (once_visits len k arr), t @ [])"
      "calls [] = concat (map (target v args) (snd (once_visits len k arr)))"
      by (simp_all add: forEach_once.simps once_visits.simps)
    moreover have "caught env t []"
      by simp
    ultimately show ?thesis by blast
  next
    case klen: True
    show ?thesis
    proof (cases "k < length arr")
      case False
      obtain u where "forEach_once env v args len (k + 1) (arr, t)
            = Normal (fst (once_visits len (k + 1) arr), t @ u)"
        and "caught env t u"
        and "calls u = concat (map (target v args) (snd (once_visits len (k + 1) arr)))"
        using "1.IH"(2) [OF klen False] by blast
      moreover have "forEach_once env v args len k (arr, t)
          = forEach_once env v args len (k + 1) (arr, t)"
        using klen False by (subst forEach_once.simps) simp
      moreover have "once_visits len k arr = once_visits len (k + 1) arr"
        using klen False by (subst once_visits.simps) simp
      ultimately show ?thesis by auto
    next
      case True
      let ?arr = "splice1 (indexOf arr (arr ! k)) arr"
      obtain u1 where h1: "runHandler env v args (arr ! k) t = Normal (t @ u1)"
        and g1: "caught env t u1" and c1: "calls u1 = target v args (arr ! k)"
        using runHandler_trace by blast
      obtain u2 where h2: "forEach_once env v args len (k + 1) (?arr, t @ u1)
            = Normal (fst (once_visits len (k + 1) ?arr), (t @ u1) @ u2)"
        and g2: "caught env (t @ u1) u2"
        and c2: "calls u2 = concat (map (target v args) (snd (once_visits len (k + 1) ?arr)))"
        using "1.IH"(1) [OF klen True] by blast
      have ov: "once_visits len k arr
          = (fst (once_visits len (k + 1) ?arr), arr ! k # snd (once_visits len (k + 1) ?arr))"
        using klen True by (subst once_visits.simps) (simp split: prod.splits)
      have "forEach_once env v args len k (arr, t)
          = Normal (fst (once_visits len k arr), t @ (u1 @ u2))"
        using klen True h1 h2 ov by (subst forEach_once.simps) simp
      moreover have "caught env t (u1 @ u2)"
        using g1 g2 by (rule caught_append)
      moreover have "calls (u1 @ u2) = concat (map (target v args) (snd (once_visits len k arr)))"
        using c1 c2 ov by (simp add: calls_append)
      ultimately show ?thesis by blast
    qed
  qed
qed

lemma emit_trace:
  "\<exists>u. emit env r event args t = Normal (emit_leaves r event, t @ u)
       \<and> caught env t u
       \<and> calls u = concat (map (target (vm r) args) (emit_visits r event))"
proof -
  let ?key = "''on'' @ event"
  obtain u1 where h1: "forEach (runHandler env (vm r) args) (handlers_at (listeners r) ?key) t
        = Normal (t @ u1)"
    and g1: "caught env t u1"
    and c1: "calls u1 = concat (map (target (vm r) args) (handlers_at (listeners r) ?key))"
    using forEach_runHandler_trace by blast
  show ?thesis
  proof (cases "map_of (onceListeners r) ?key")
    case None
    then have "emit env r event args t = Normal (emit_leaves r event, t @ u1)"
      "calls u1 = concat (map (target (vm r) args) (emit_visits r event))"
      using h1 c1 by (simp_all add: emit_def emit_leaves_def emit_visits_def)
    then show ?thesis
      using g1 by blast
  next
    case (Some arr)
    obtain u2 where h2: "forEach_once env (vm r) args (length arr) 0 (arr, t @ u1)
          = Normal (fst (once_visits (length arr) 0 arr), (t @ u1) @ u2)"
      and g2: "caught env (t @ u1) u2"
      and c2: "calls u2 = concat (map (target (vm r) args) (snd (once_visits (length arr) 0 arr)))"
      using forEach_once_trace by blast
    have "emit env r event args t = Normal (emit_leaves r event, t @ (u1 @ u2))"
      using Some h1 h2 by (simp add: emit_def emit_leaves_def)
    moreover have "caught env t (u1 @ u2)"
      using g1 g2 by (rule caught_append)
    moreover have "calls (u1 @ u2) = concat (map (target (vm r) args) (emit_visits r event))"
      using Some c1 c2 by (simp add: emit_visits_def calls_append)
    ultimately show ?thesis by blast
  qed
qed

lemma once_visits_first:
  "\<exists>ws. snd (once_visits (length (h # hs)) 0 (h # hs)) = h # ws"
  by (subst once_visits.simps) (simp split: prod.splits)

lemma emit_visits_first:
  "\<exists>vs. emit_visits r event = handlers_at (listeners r) (''on'' @ event) @ vs
        \<and> set vs \<subseteq> set (handlers_at (onceListeners r) (''on'' @ event))
        \<and> (\<forall>h hs. handlers_at (onceListeners r) (''on'' @ event) = h # hs \<longrightarrow> (\<exists>ws. vs = h # ws))"
proof (cases "map_of (onceListeners r) (''on'' @ event)")
  case None
  then show ?thesis
    by (simp add: emit_visits_def handlers_at_def)
next
  case (Some arr)
  have sub: "set (snd (once_visits (length arr) 0 arr)) \<subseteq> set arr"
    using once_visits_subset by blast
  have first: "\<forall>h hs. arr = h # hs \<longrightarrow> (\<exists>ws. snd (once_visits (length arr) 0 arr) = h # ws)"
    using once_visits_first by blast
  have "emit_visits r event
      = handlers_at (listeners r) (''on'' @ event) @ snd (once_visits (length arr) 0 arr)"
    "handlers_at (onceListeners r) (''on'' @ event) = arr"
    using Some by (simp_all add: emit_visits_def handlers_at_def)
  then show ?thesis
    using sub first by blast
qed

lemma two_handlers_eq:
  "two_handlers = sample\<lparr>listeners := [(''onSuccess'', [Fun (UserFn 1), Fun (UserFn 2)])]\<rparr>"
  by (simp add: two_handlers_def on_def sample_def handlers_at_def)

lemma emit_two_handlers:
  "emit throwing (two_handlers\<lparr>loading := True, data := Num 1\<rparr>) ''Success'' [Num 1]
       [Request (Str ''a'') Null]
     = Normal (two_handlers\<lparr>loading := True, data := Num 1\<rparr>,
               [Request (Str ''a'') Null,
                Called 1 [Num 1], Logged (Thrown (Str ''boom'')),
                Called 2 [Num 1], Logged (Thrown (Str ''boom''))])"
  by (simp add: two_handlers_eq sample_def emit_def handlers_at_def runHandler_def
        handler_call_def throwing_def)

text \<open>The sample resource is what the constructor builds from \<^verbatim>\<open>{method: 'a'}\<close>.\<close>

lemma sample_constructed:
  "construct (Obj []) (Obj [(''method'', Str ''a'')]) Undefined = Inr sample"
  by (simp add: construct_def update_def sample_def normalize_options_def listenerKeys_def
        js_or_def strict_eq_def blank_def)

text \<open>
  A rejection that carries no \<^verbatim>\<open>messages\<close> array makes the \<^verbatim>\<open>catch\<close> block itself throw:
  the promise of \<^verbatim>\<open>fetch\<close> is rejected with a TypeError, with \<^verbatim>\<open>loading\<close> still true and
  \<^verbatim>\<open>lastLoaded\<close> not set. The call collaborator's interface promises a list of messages,
  and the facts about rejected calls below assume one.
\<close>

lemma fetch_rejected_without_messages:
  "fetch quiet tostr now (Rejected (Obj [])) sample []
     = Abrupt TypeError (sample\<lparr>loading := True\<rparr>, [Request (Str ''a'') Null])"
  by (simp add: fetch_def fetch_begin_def call_condition_def fetch_resume_def fetch_try_def
        fetch_catch_def error_messages_def join_messages_def sample_def)

section \<open>The specification's claims\<close>

text \<open>
  \<^bold>\<open>C1.\<close> \<^verbatim>\<open>on(K, h)\<close> and \<^verbatim>\<open>once(K, h)\<close> append \<^verbatim>\<open>h\<close> to the handler list stored under the
  name \<^verbatim>\<open>K\<close> exactly as it is given and leave every other list alone: nothing is put in
  front of the name and nothing is capitalised (an array \<^verbatim>\<open>h\<close> is appended element by
  element, as \<^verbatim>\<open>concat\<close> does). \<^verbatim>\<open>emit(E)\<close> runs the lists stored under \<^verbatim>\<open>'on' + E\<close>. So a
  function registered by \<^verbatim>\<open>on('on' + E, f)\<close> is called by every later \<^verbatim>\<open>emit(E)\<close>: two
  emits call it twice on account of that registration, each time after the persistent
  handlers registered before it and before any one-shot handler of the event.
\<close>

theorem C1_on_once_store_under_the_given_key:
  "handlers_at (listeners (on r K h)) K'
     = (if K' = K then handlers_at (listeners r) K @ concat_arg h
        else handlers_at (listeners r) K')
   \<and> onceListeners (on r K h) = onceListeners r
   \<and> handlers_at (onceListeners (once r K h)) K'
     = (if K' = K then handlers_at (onceListeners r) K @ concat_arg h
        else handlers_at (onceListeners r) K')
   \<and> listeners (once r K h) = listeners r
   \<and> (\<exists>r1 t1 r2 t2 vs1 vs2.
         emit env (on r (''on'' @ E) (Fun (UserFn f))) E args t = Normal (r1, t1)
       \<and> emit env r1 E args' t1 = Normal (r2, t2)
       \<and> set vs1 \<subseteq> set (handlers_at (onceListeners r) (''on'' @ E))
       \<and> set vs2 \<subseteq> set (handlers_at (onceListeners r) (''on'' @ E))
       \<and> calls t2
           = calls t
             @ concat (map (target (vm r) args) (handlers_at (listeners r) (''on'' @ E)))
             @ [(f, args)]
             @ concat (map (target (vm r) args) vs1)
             @ concat (map (target (vm r) args') (handlers_at (listeners r) (''on'' @ E)))
             @ [(f, args')]
             @ concat (map (target (vm r) args') vs2))"
proof -
  let ?k = "''on'' @ E"
  let ?r = "on r ?k (Fun (UserFn f))"
  let ?hs = "handlers_at (listeners r) ?k"
  let ?r1 = "emit_leaves ?r E"
  let ?r2 = "emit_leaves ?r1 E"
  have a: "handlers_at (listeners (on r K h)) K'
     = (if K' = K then handlers_at (listeners r) K @ concat_arg h
        else handlers_at (listeners r) K')"
    by (simp add: on_def handlers_at_update)
  have b: "handlers_at (onceListeners (once r K h)) K'
     = (if K' = K then handlers_at (onceListeners r) K @ concat_arg h
        else handlers_at (onceListeners r) K')"
    by (simp add: once_def handlers_at_update)
  have hs: "handlers_at (listeners ?r) ?k = ?hs @ [Fun (UserFn f)]"
    by (simp add: on_def handlers_at_update)
  obtain vs1 where v1: "emit_visits ?r E = (?hs @ [Fun (UserFn f)]) @ vs1"
    and s1: "set vs1 \<subseteq> set (handlers_at (onceListeners r) ?k)"
    using emit_visits_split [of ?r E] hs by (auto simp: on_fields)
  obtain vs2 where v2: "emit_visits ?r1 E = (?hs @ [Fun (UserFn f)]) @ vs2"
    and s2': "set vs2 \<subseteq> set (handlers_at (onceListeners ?r1) ?k)"
    using emit_visits_split [of ?r1 E] hs by (auto simp: emit_leaves_fields)
  have s2: "set vs2 \<subseteq> set (handlers_at (onceListeners r) ?k)"
    using s2' emit_leaves_once_subset [of ?r E] by (auto simp: on_fields)
  obtain t1 where e1: "emit env ?r E args t = Normal (?r1, t1)"
    and c1: "calls t1 = calls t @ concat (map (target (vm ?r) args) (emit_visits ?r E))"
    using emit_result [of env ?r E args t] by blast
  obtain t2 where e2: "emit env ?r1 E args' t1 = Normal (?r2, t2)"
    and c2: "calls t2 = calls t1 @ concat (map (target (vm ?r1) args') (emit_visits ?r1 E))"
    using emit_result [of env ?r1 E args' t1] by blast
  have c: "calls t2
           = calls t @ concat (map (target (vm r) args) ?hs) @ [(f, args)]
             @ concat (map (target (vm r) args) vs1)
             @ concat (map (target (vm r) args') ?hs) @ [(f, args')]
             @ concat (map (target (vm r) args') vs2)"
  proof -
    have vm: "vm ?r = vm r" "vm ?r1 = vm r"
      by (simp_all add: on_fields emit_leaves_fields)
    have tf: "target (vm r) xs (Fun (UserFn f)) = [(f, xs)]" for xs
      by (simp add: target_def)
    show ?thesis
      unfolding c2 c1 vm v1 v2 by (simp add: tf)
  qed
  have run: "\<exists>r1 t1 r2 t2 vs1 vs2.
         emit env ?r E args t = Normal (r1, t1)
       \<and> emit env r1 E args' t1 = Normal (r2, t2)
       \<and> set vs1 \<subseteq> set (handlers_at (onceListeners r) ?k)
       \<and> set vs2 \<subseteq> set (handlers_at (onceListeners r) ?k)
       \<and> calls t2
           = calls t @ concat (map (target (vm r) args) ?hs) @ [(f, args)]
             @ concat (map (target (vm r) args) vs1)
             @ concat (map (target (vm r) args') ?hs) @ [(f, args')]
             @ concat (map (target (vm r) args') vs2)"
    using e1 e2 s1 s2 c by blast
  show ?thesis
    using a b run by (simp add: on_fields once_fields)
qed

text \<open>
  C1 at work: two persistent handlers under \<^verbatim>\<open>onError\<close>, both throwing, and two emits of
  \<^verbatim>\<open>Error\<close>.
\<close>

theorem C1_witness:
  "\<exists>r1 t1 r2 t2.
      emit throwing (on (on sample ''onError'' (Fun (UserFn 7))) ''onError'' (Fun (UserFn 1)))
         ''Error'' [Str ''x''] [] = Normal (r1, t1)
    \<and> emit throwing r1 ''Error'' [Str ''y''] t1 = Normal (r2, t2)
    \<and> calls t2 = [(7, [Str ''x'']), (1, [Str ''x'']), (7, [Str ''y'']), (1, [Str ''y''])]"
  using C1_on_once_store_under_the_given_key
          [where r = "on sample ''onError'' (Fun (UserFn 7))" and E = "''Error''"
             and env = throwing and f = 1 and args = "[Str ''x'']" and t = "[]"
             and args' = "[Str ''y'']"]
  by (auto simp: on_def sample_def handlers_at_def target_def)

text \<open>
  C1 as the specification words it fails: a handler registered for the event name
  \<^verbatim>\<open>Error\<close> is not stored under \<^verbatim>\<open>onError\<close>, and \<^verbatim>\<open>emit('Error')\<close> calls nothing.
\<close>

theorem C1_counterexample:
  "handlers_at (listeners (on sample ''Error'' (Fun (UserFn 1)))) ''onError'' = []
   \<and> emit quiet (on sample ''Error'' (Fun (UserFn 1))) ''Error'' [] []
       = Normal (on sample ''Error'' (Fun (UserFn 1)), [])"
  by (simp add: on_def sample_def handlers_at_def emit_def)

text \<open>
  \<^bold>\<open>C2.\<close> The specification wants one \<^verbatim>\<open>emit\<close> to call every one-shot handler of the
  event and to leave their list empty. With two one-shot handlers registered for
  \<^verbatim>\<open>Success\<close> the code calls the first only: removing it moves the second to index 0,
  index 1 is gone, and \<^verbatim>\<open>forEach\<close> stops. The second handler stays in the list, and
  it is the next \<^verbatim>\<open>emit\<close> that calls it.
\<close>

theorem C2_second_once_handler_is_skipped:
  "emit quiet (once (once sample ''onSuccess'' (Fun (UserFn 1))) ''onSuccess'' (Fun (UserFn 2)))
       ''Success'' [] []
     = Normal (sample\<lparr>onceListeners := [(''onSuccess'', [Fun (UserFn 2)])]\<rparr>, [Called 1 []])
   \<and> emit quiet (sample\<lparr>onceListeners := [(''onSuccess'', [Fun (UserFn 2)])]\<rparr>)
       ''Success'' [] [Called 1 []]
     = Normal (sample\<lparr>onceListeners := [(''onSuccess'', [])]\<rparr>, [Called 1 [], Called 2 []])"
  by (simp add: once_def sample_def handlers_at_def emit_def forEach_once.simps runHandler_def
        handler_call_def quiet_def indexOf_def strict_eq_def splice1_def)

text \<open>
  \<^bold>\<open>C3.\<close> Whatever the handlers do, \<^verbatim>\<open>emit\<close> completes normally and leaves the same
  resource. It calls every persistent handler of the event, in registration order, and then
  the one-shot handlers it visits, which are the same whatever throws and always include
  the first one registered; and every exception a handler throws is on the console right
  after the call that threw it. A fetch whose condition holds stores its payload or its
  error, runs that \<^verbatim>\<open>emit\<close>, and then sets \<^verbatim>\<open>lastLoaded\<close> to the current time and
  \<^verbatim>\<open>loading\<close> to false, after a resolved call and after a call rejected with a
  \<^verbatim>\<open>messages\<close> array alike.
\<close>

theorem C3_handler_exceptions_are_isolated:
  "(\<exists>r' vs.
        set vs \<subseteq> set (handlers_at (onceListeners r) (''on'' @ E))
      \<and> (\<forall>h hs. handlers_at (onceListeners r) (''on'' @ E) = h # hs \<longrightarrow> (\<exists>ws. vs = h # ws))
      \<and> (\<forall>env args t. \<exists>u.
            emit env r E args t = Normal (r', t @ u)
          \<and> caught env t u
          \<and> calls u
              = concat (map (target (vm r) args) (handlers_at (listeners r) (''on'' @ E) @ vs))))
   \<and> (call_condition env r t = (Returns c, t1) \<and> truthy c \<longrightarrow>
        (\<exists>r1 t'.
            emit env
              (r\<lparr>loading := True,
                 data := (if is_array d \<and> truthy (paged r)
                          then Arr (concat_arg (js_or (data r) (Arr [])) @ concat_arg d)
                          else d)\<rparr>)
              ''Success''
              [if is_array d \<and> truthy (paged r)
               then Arr (concat_arg (js_or (data r) (Arr [])) @ concat_arg d)
               else d]
              (t1 @ [Request (method r) (params r)])
              = Normal (r1, t')
          \<and> fetch env tostr now (Resolved d) r t
              = Normal (r1\<lparr>lastLoaded := Some now, loading := False\<rparr>, t'))
      \<and> (get_prop x ''messages'' = Arr ms \<longrightarrow>
          (\<exists>r1 t'.
              emit env (r\<lparr>loading := True, error := Str (js_join tostr newline ms)\<rparr>) ''Error''
                [Str (js_join tostr newline ms)] (t1 @ [Request (method r) (params r)])
                = Normal (r1, t')
            \<and> fetch env tostr now (Rejected x) r t
                = Normal (r1\<lparr>lastLoaded := Some now, loading := False\<rparr>, t'))))"
proof -
  obtain vs where v: "emit_visits r E = handlers_at (listeners r) (''on'' @ E) @ vs"
    and s: "set vs \<subseteq> set (handlers_at (onceListeners r) (''on'' @ E))"
    and f: "\<forall>h hs. handlers_at (onceListeners r) (''on'' @ E) = h # hs \<longrightarrow> (\<exists>ws. vs = h # ws)"
    using emit_visits_first [of r E] by blast
  have run: "\<forall>env args t. \<exists>u.
            emit env r E args t = Normal (emit_leaves r E, t @ u)
          \<and> caught env t u
          \<and> calls u
              = concat (map (target (vm r) args) (handlers_at (listeners r) (''on'' @ E) @ vs))"
    using emit_trace [of _ r E] unfolding v by blast
  have a: "\<exists>r' vs.
        set vs \<subseteq> set (handlers_at (onceListeners r) (''on'' @ E))
      \<and> (\<forall>h hs. handlers_at (onceListeners r) (''on'' @ E) = h # hs \<longrightarrow> (\<exists>ws. vs = h # ws))
      \<and> (\<forall>env args t. \<exists>u.
            emit env r E args t = Normal (r', t @ u)
          \<and> caught env t u
          \<and> calls u
              = concat (map (target (vm r) args) (handlers_at (listeners r) (''on'' @ E) @ vs)))"
    apply (rule exI [of _ "emit_leaves r E"])
    apply (rule exI [of _ vs])
    apply (intro conjI)
      apply (rule s)
     apply (rule f)
    apply (rule run)
    done
  let ?D = "if is_array d \<and> truthy (paged r)
            then Arr (concat_arg (js_or (data r) (Arr [])) @ concat_arg d) else d"
  have b: "\<exists>r1 t'.
            emit env (r\<lparr>loading := True, data := ?D\<rparr>) ''Success'' [?D]
              (t1 @ [Request (method r) (params r)]) = Normal (r1, t')
          \<and> fetch env tostr now (Resolved d) r t
              = Normal (r1\<lparr>lastLoaded := Some now, loading := False\<rparr>, t')"
    if cc: "call_condition env r t = (Returns c, t1)" "truthy c"
  proof -
    let ?r = "r\<lparr>loading := True, data := ?D\<rparr>"
    let ?t = "t1 @ [Request (method r) (params r)]"
    obtain t' where e: "emit env ?r ''Success'' [?D] ?t = Normal (emit_leaves ?r ''Success'', t')"
      using emit_result [of env ?r "''Success''" "[?D]" ?t] by blast
    have "fetch_try env (Resolved d) (r\<lparr>loading := True\<rparr>) ?t = emit env ?r ''Success'' [?D] ?t"
      by (simp add: fetch_try_def)
    then have "fetch env tostr now (Resolved d) r t
        = Normal ((emit_leaves ?r ''Success'')\<lparr>lastLoaded := Some now, loading := False\<rparr>, t')"
      using e fetch_begin_passes [OF cc] by (simp add: fetch_def fetch_resume_def)
    then show ?thesis
      using e by blast
  qed
  have c: "\<exists>r1 t'.
              emit env (r\<lparr>loading := True, error := Str (js_join tostr newline ms)\<rparr>) ''Error''
                [Str (js_join tostr newline ms)] (t1 @ [Request (method r) (params r)])
                = Normal (r1, t')
            \<and> fetch env tostr now (Rejected x) r t
                = Normal (r1\<lparr>lastLoaded := Some now, loading := False\<rparr>, t')"
    if cc: "call_condition env r t = (Returns c, t1)" "truthy c"
      and m: "get_prop x ''messages'' = Arr ms"
    using fetch_passes_rejected [OF cc m, of tostr now] by blast
  show ?thesis
    using a b c by blast
qed

text \<open>
  C3 at work: two \<^verbatim>\<open>onSuccess\<close> handlers that both throw. Each is called and its exception
  logged, and the fetch settles.
\<close>

theorem C3_witness:
  "(\<forall>env args t. \<exists>r' u.
        emit env two_handlers ''Success'' args t = Normal (r', t @ u)
      \<and> caught env t u
      \<and> calls u = [(1, args), (2, args)])
   \<and> call_condition throwing two_handlers [] = (Returns (Bool True), [])
   \<and> truthy (Bool True)
   \<and> fetch throwing (\<lambda>x. []) 5 (Resolved (Num 1)) two_handlers []
       = Normal (two_handlers\<lparr>data := Num 1, lastLoaded := Some 5\<rparr>,
                 [Request (Str ''a'') Null,
                  Called 1 [Num 1], Logged (Thrown (Str ''boom'')),
                  Called 2 [Num 1], Logged (Thrown (Str ''boom''))])
   \<and> caught throwing [Request (Str ''a'') Null]
         [Called 1 [Num 1], Logged (Thrown (Str ''boom'')),
          Called 2 [Num 1], Logged (Thrown (Str ''boom''))]"
proof -
  note thm1 = C3_handler_exceptions_are_isolated
      [where r = two_handlers and E = "''Success''" and env = throwing and t = "[]"
         and c = "Bool True" and ?t1.0 = "[]" and d = "Num 1" and tostr = "\<lambda>x. []" and now = 5]
  have cc: "call_condition throwing two_handlers [] = (Returns (Bool True), [])"
    "truthy (Bool True)"
    by (simp_all add: call_condition_def two_handlers_eq sample_def)
  have once: "handlers_at (onceListeners two_handlers) (''on'' @ ''Success'') = []"
    and pers: "handlers_at (listeners two_handlers) (''on'' @ ''Success'')
        = [Fun (UserFn 1), Fun (UserFn 2)]"
    by (simp_all add: two_handlers_eq sample_def handlers_at_def)
  obtain r' vs where sub: "set vs \<subseteq> set (handlers_at (onceListeners two_handlers) (''on'' @ ''Success''))"
    and run: "\<forall>env args t. \<exists>u.
            emit env two_handlers ''Success'' args t = Normal (r', t @ u)
          \<and> caught env t u
          \<and> calls u = concat (map (target (vm two_handlers) args)
                (handlers_at (listeners two_handlers) (''on'' @ ''Success'') @ vs))"
    using thm1 [THEN conjunct1] by blast
  have vs: "vs = []"
    using sub unfolding once by simp
  have tg: "concat (map (target (vm two_handlers) args) ([Fun (UserFn 1), Fun (UserFn 2)] @ []))
      = [(1, args), (2, args)]" for args
    by (simp add: target_def)
  have a: "\<forall>env args t. \<exists>r' u.
        emit env two_handlers ''Success'' args t = Normal (r', t @ u)
      \<and> caught env t u
      \<and> calls u = [(1, args), (2, args)]"
    using run unfolding vs pers tg by blast
  have fields: "method two_handlers = Str ''a''" "params two_handlers = Null"
    "(if is_array (Num 1) \<and> truthy (paged two_handlers) then X else Num 1) = Num 1" for X
    by (simp_all add: two_handlers_eq sample_def)
  obtain r1 t' where e: "emit throwing (two_handlers\<lparr>loading := True, data := Num 1\<rparr>) ''Success''
        [Num 1] [Request (Str ''a'') Null] = Normal (r1, t')"
    and f: "fetch throwing (\<lambda>x. []) 5 (Resolved (Num 1)) two_handlers []
        = Normal (r1\<lparr>lastLoaded := Some 5, loading := False\<rparr>, t')"
    using thm1 [THEN conjunct2, rule_format, OF conjI [OF cc], THEN conjunct1]
    unfolding fields append_Nil by blast
  have r1: "r1 = two_handlers\<lparr>loading := True, data := Num 1\<rparr>"
    and t': "t' = [Request (Str ''a'') Null,
                  Called 1 [Num 1], Logged (Thrown (Str ''boom'')),
                  Called 2 [Num 1], Logged (Thrown (Str ''boom''))]"
    using e unfolding emit_two_handlers by simp_all
  have same: "(two_handlers\<lparr>loading := True, data := Num 1\<rparr>)\<lparr>lastLoaded := Some 5, loading := False\<rparr>
      = two_handlers\<lparr>data := Num 1, lastLoaded := Some 5\<rparr>"
    by (simp add: two_handlers_eq sample_def)
  have b: "fetch throwing (\<lambda>x. []) 5 (Resolved (Num 1)) two_handlers []
       = Normal (two_handlers\<lparr>data := Num 1, lastLoaded := Some 5\<rparr>,
                 [Request (Str ''a'') Null,
                  Called 1 [Num 1], Logged (Thrown (Str ''boom'')),
                  Called 2 [Num 1], Logged (Thrown (Str ''boom''))])"
    using f unfolding r1 t' same .
  have c: "caught throwing [Request (Str ''a'') Null]
         [Called 1 [Num 1], Logged (Thrown (Str ''boom'')),
          Called 2 [Num 1], Logged (Thrown (Str ''boom''))]"
    by (simp add: throwing_def)
  show ?thesis
    apply (intro conjI)
        apply (rule a)
       apply (rule cc(1))
      apply (rule cc(2))
     apply (rule b)
    apply (rule c)
    done
qed

text \<open>
  \<^bold>\<open>C4.\<close> On a paged resource whose condition holds, a fetch that resolves with an array
  stores the old payload followed by the new elements, where a falsy old payload (such as
  \<^verbatim>\<open>null\<close>) counts as the empty array; a fetch that resolves with anything else stores that
  value in place of the old payload. Starting from a falsy payload, two fetches resolving
  with \<^verbatim>\<open>[a]\<close> and then \<^verbatim>\<open>[b]\<close> leave \<^verbatim>\<open>[a, b]\<close>.
\<close>

theorem C4_paged_fetch_appends_a_sequence:
  assumes "truthy (paged r)"
    and "call_condition env r t = (Returns c, t1)"
    and "truthy c"
  shows "(\<exists>r' t'. fetch env tostr now (Resolved (Arr ys)) r t = Normal (r', t')
            \<and> data r' = Arr (concat_arg (js_or (data r) (Arr [])) @ ys))
       \<and> (\<not> is_array d \<longrightarrow>
            (\<exists>r' t'. fetch env tostr now (Resolved d) r t = Normal (r', t') \<and> data r' = d))
       \<and> (\<not> truthy (data r) \<longrightarrow>
            (\<forall>r1 u1 c' u2.
               fetch env tostr now (Resolved (Arr [a])) r t = Normal (r1, u1)
               \<and> call_condition env r1 u1 = (Returns c', u2) \<and> truthy c' \<longrightarrow>
               (\<exists>r2 u3. fetch env tostr now' (Resolved (Arr [b])) r1 u1 = Normal (r2, u3)
                   \<and> data r2 = Arr [a, b])))"
proof -
  have step: "\<exists>t'. fetch env' tostr n (Resolved (Arr zs)) r0 s
            = Normal ((emit_leaves (r0\<lparr>loading := True,
                          data := Arr (concat_arg (js_or (data r0) (Arr [])) @ zs)\<rparr>) ''Success'')
                        \<lparr>lastLoaded := Some n, loading := False\<rparr>, t')"
    if "truthy (paged r0)" "call_condition env' r0 s = (Returns c0, s1)" "truthy c0"
    for env' n zs r0 s c0 s1
    using fetch_passes_resolved [OF that(2,3), of tostr n "Arr zs"] that(1)
    by (simp add: next_data_def)
  have a: "\<exists>r' t'. fetch env tostr now (Resolved (Arr ys)) r t = Normal (r', t')
            \<and> data r' = Arr (concat_arg (js_or (data r) (Arr [])) @ ys)"
    using step [OF assms, of now ys] by (auto simp: emit_leaves_fields)
  have b: "\<exists>r' t'. fetch env tostr now (Resolved d) r t = Normal (r', t') \<and> data r' = d"
    if "\<not> is_array d"
    using fetch_passes_resolved [OF assms(2,3), of tostr now d] that
    by (auto simp: next_data_def emit_leaves_fields)
  have c: "\<exists>r2 u3. fetch env tostr now' (Resolved (Arr [b])) r1 u1 = Normal (r2, u3)
                   \<and> data r2 = Arr [a, b]"
    if falsy: "\<not> truthy (data r)"
      and f1: "fetch env tostr now (Resolved (Arr [a])) r t = Normal (r1, u1)"
      and c2: "call_condition env r1 u1 = (Returns c', u2)" "truthy c'"
    for r1 u1 c' u2
  proof -
    have r1: "data r1 = Arr [a]" "paged r1 = paged r"
      using step [OF assms, of now "[a]"] f1 falsy
      by (auto simp: emit_leaves_fields js_or_def)
    then have p1: "truthy (paged r1)"
      using assms(1) by simp
    show ?thesis
      using step [OF p1 c2, of now' "[b]"] r1
      by (auto simp: emit_leaves_fields js_or_def)
  qed
  show ?thesis
    using a b c by blast
qed

text \<open>
  C4 at work: two pages fetched one after the other into a fresh paged resource.
\<close>

theorem C4_witness:
  "truthy (paged paged_sample)
   \<and> call_condition quiet paged_sample [] = (Returns (Bool True), [])
   \<and> truthy (Bool True)
   \<and> \<not> truthy (data paged_sample)
   \<and> (\<exists>r1 u1. fetch quiet (\<lambda>x. []) 1 (Resolved (Arr [Num 10])) paged_sample [] = Normal (r1, u1)
        \<and> data r1 = Arr [Num 10]
        \<and> (\<exists>r2 u3. fetch quiet (\<lambda>x. []) 2 (Resolved (Arr [Num 20])) r1 u1 = Normal (r2, u3)
              \<and> data r2 = Arr [Num 10, Num 20]))"
proof -
  have h: "truthy (paged paged_sample)"
    "call_condition quiet paged_sample [] = (Returns (Bool True), [])"
    "truthy (Bool True)"
    by (simp_all add: paged_sample_def sample_def call_condition_def)
  have falsy: "\<not> truthy (data paged_sample)"
    by (simp add: paged_sample_def sample_def)
  obtain r1 u1 where f1: "fetch quiet (\<lambda>x. []) 1 (Resolved (Arr [Num 10])) paged_sample [] = Normal (r1, u1)"
    and d1: "data r1 = Arr (concat_arg (js_or (data paged_sample) (Arr [])) @ [Num 10])"
    using C4_paged_fetch_appends_a_sequence [OF h, of "\<lambda>x. []" 1 "[Num 10]"] by blast
  have c1: "condition r1 = Fun ArrowTrue"
    using f1 fetch_passes_resolved [OF h(2,3), of "\<lambda>x. []" 1 "Arr [Num 10]"]
    by (auto simp: emit_leaves_fields paged_sample_def sample_def)
  have "call_condition quiet r1 u1 = (Returns (Bool True), u1)"
    by (simp add: call_condition_def c1)
  then have "\<exists>r2 u3. fetch quiet (\<lambda>x. []) 2 (Resolved (Arr [Num 20])) r1 u1 = Normal (r2, u3)
              \<and> data r2 = Arr [Num 10, Num 20]"
    using C4_paged_fetch_appends_a_sequence [OF h, of "\<lambda>x. []" 1 _ _ "Num 10" 2 "Num 20"] falsy f1
    by auto
  then show ?thesis
    using h falsy f1 d1 by (auto simp: js_or_def)
qed

text \<open>
  C4 as the specification words it fails: a paged resource holding \<^verbatim>\<open>[10]\<close> whose call
  resolves with an object holds that object afterwards; its payload has been replaced and
  is no longer a sequence.
\<close>

theorem C4_counterexample:
  "truthy (paged (paged_sample\<lparr>data := Arr [Num 10]\<rparr>))
   \<and> fetch quiet (\<lambda>x. []) 1 (Resolved (Obj [(''total'', Num 3)])) (paged_sample\<lparr>data := Arr [Num 10]\<rparr>) []
     = Normal (paged_sample\<lparr>data := Obj [(''total'', Num 3)], lastLoaded := Some 1\<rparr>,
               [Request (Str ''a'') Null])"
  by (simp add: paged_sample_def sample_def fetch_def fetch_begin_def call_condition_def
        fetch_resume_def fetch_try_def emit_def handlers_at_def)

text \<open>
  \<^bold>\<open>C5.\<close> When the condition holds and the call is rejected with an error whose
  \<^verbatim>\<open>messages\<close> is an array, \<^verbatim>\<open>fetch\<close> completes normally: \<^verbatim>\<open>error\<close> is the messages joined
  by newlines, \<^verbatim>\<open>emit('Error', error)\<close> has run on the resource so updated, and then
  \<^verbatim>\<open>lastLoaded\<close> is the current time and \<^verbatim>\<open>loading\<close> is false. The payload is untouched.
\<close>

theorem C5_rejected_call_is_captured:
  assumes "call_condition env r t = (Returns c, t1)"
    and "truthy c"
    and "get_prop x ''messages'' = Arr ms"
  shows "\<exists>r1 r' t'.
           fetch env tostr now (Rejected x) r t = Normal (r', t')
         \<and> emit env (r\<lparr>loading := True, error := Str (js_join tostr newline ms)\<rparr>) ''Error''
               [Str (js_join tostr newline ms)] (t1 @ [Request (method r) (params r)])
             = Normal (r1, t')
         \<and> r' = r1\<lparr>lastLoaded := Some now, loading := False\<rparr>
         \<and> error r' = Str (js_join tostr newline ms)
         \<and> lastLoaded r' = Some now
         \<and> \<not> loading r'
         \<and> data r' = data r"
  using fetch_passes_rejected [OF assms, of tostr now]
  by (auto simp: emit_leaves_fields)

text \<open>
  C5 at work: two messages, and an \<^verbatim>\<open>onError\<close> handler that receives the joined string.
\<close>

theorem C5_witness:
  "call_condition quiet (on sample ''onError'' (Fun (UserFn 4))) [] = (Returns (Bool True), [])
   \<and> truthy (Bool True)
   \<and> get_prop (Obj [(''messages'', Arr [Str ''no access'', Str ''try again''])]) ''messages''
       = Arr [Str ''no access'', Str ''try again'']
   \<and> (\<exists>r' t'.
         fetch quiet (\<lambda>x. []) 9 (Rejected (Obj [(''messages'', Arr [Str ''no access'', Str ''try again''])]))
            (on sample ''onError'' (Fun (UserFn 4))) [] = Normal (r', t')
       \<and> error r' = Str (''no access'' @ newline @ ''try again'')
       \<and> lastLoaded r' = Some 9 \<and> \<not> loading r'
       \<and> calls t' = [(4, [Str (''no access'' @ newline @ ''try again'')])])"
proof -
  let ?r = "on sample ''onError'' (Fun (UserFn 4))"
  let ?x = "Obj [(''messages'', Arr [Str ''no access'', Str ''try again''])]"
  let ?s = "Str (''no access'' @ newline @ ''try again'')"
  have h: "call_condition quiet ?r [] = (Returns (Bool True), [])" "truthy (Bool True)"
    "get_prop ?x ''messages'' = Arr [Str ''no access'', Str ''try again'']"
    by (simp_all add: call_condition_def on_def sample_def)
  have j: "Str (js_join (\<lambda>x. []) newline [Str ''no access'', Str ''try again'']) = ?s"
    by simp
  obtain r1 r' t' where
    f: "fetch quiet (\<lambda>x. []) 9 (Rejected ?x) ?r [] = Normal (r', t')"
    and e: "emit quiet (?r\<lparr>loading := True, error := ?s\<rparr>) ''Error'' [?s]
              ([] @ [Request (method ?r) (params ?r)]) = Normal (r1, t')"
    and r: "error r' = ?s" "lastLoaded r' = Some 9" "\<not> loading r'"
    using C5_rejected_call_is_captured [OF h, of "\<lambda>x. []" 9] unfolding j by blast
  have "calls t' = [(4, [?s])]"
    using e emit_result [of quiet "?r\<lparr>loading := True, error := ?s\<rparr>" "''Error''" "[?s]"
            "[Request (method ?r) (params ?r)]"]
    by (auto simp: emit_visits_def on_def sample_def handlers_at_def target_def)
  then show ?thesis
    using h f r by blast
qed

text \<open>
  \<^bold>\<open>C6.\<close> When \<^verbatim>\<open>condition()\<close> returns a falsy value, \<^verbatim>\<open>fetch\<close> returns at once and the
  resource is exactly as it was. When it returns a truthy value, \<^verbatim>\<open>lastLoaded\<close> is set to
  the current time, after a resolved call and after a call rejected with a \<^verbatim>\<open>messages\<close>
  array alike.
\<close>

theorem C6_condition_skip_changes_nothing:
  assumes "call_condition env r t = (Returns c, t1)"
  shows "(\<not> truthy c \<longrightarrow> fetch env tostr now res r t = Normal (r, t1))
       \<and> (truthy c \<longrightarrow>
            (\<exists>r' t'. fetch env tostr now (Resolved d) r t = Normal (r', t')
                \<and> lastLoaded r' = Some now)
          \<and> (get_prop x ''messages'' = Arr ms \<longrightarrow>
              (\<exists>r' t'. fetch env tostr now (Rejected x) r t = Normal (r', t')
                  \<and> lastLoaded r' = Some now)))"
proof -
  have a: "fetch env tostr now res r t = Normal (r, t1)" if "\<not> truthy c"
    using fetch_begin_skips [OF assms that] by (simp add: fetch_def)
  have b: "\<exists>r' t'. fetch env tostr now (Resolved d) r t = Normal (r', t')
                \<and> lastLoaded r' = Some now" if "truthy c"
    using fetch_passes_resolved [OF assms that, of tostr now d] by auto
  have c: "\<exists>r' t'. fetch env tostr now (Rejected x) r t = Normal (r', t')
                  \<and> lastLoaded r' = Some now"
    if "truthy c" "get_prop x ''messages'' = Arr ms"
    using fetch_passes_rejected [OF assms that, of tostr now] by auto
  show ?thesis
    using a b c by blast
qed

text \<open>
  C6 at work: a resource whose condition returns \<^verbatim>\<open>undefined\<close> keeps its payload and its
  earlier \<^verbatim>\<open>lastLoaded\<close>; the same fetch on a resource with the default condition sets
  \<^verbatim>\<open>lastLoaded\<close>.
\<close>

theorem C6_witness:
  "call_condition quiet gated_sample [] = (Returns Undefined, [Called 3 []])
   \<and> \<not> truthy Undefined
   \<and> fetch quiet (\<lambda>x. []) 8 (Resolved (Num 6)) gated_sample [] = Normal (gated_sample, [Called 3 []])
   \<and> call_condition quiet sample [] = (Returns (Bool True), [])
   \<and> (\<exists>r' t'. fetch quiet (\<lambda>x. []) 8 (Resolved (Num 6)) sample [] = Normal (r', t')
          \<and> lastLoaded r' = Some 8)"
proof -
  have h: "call_condition quiet gated_sample [] = (Returns Undefined, [Called 3 []])"
    by (simp add: call_condition_def gated_sample_def sample_def quiet_def)
  have h2: "call_condition quiet sample [] = (Returns (Bool True), [])"
    by (simp add: call_condition_def sample_def)
  show ?thesis
    using h h2 C6_condition_skip_changes_nothing [OF h, of "\<lambda>x. []" 8 "Resolved (Num 6)"]
      C6_condition_skip_changes_nothing [OF h2, of "\<lambda>x. []" 8 _ "Num 6"]
    by simp
qed

text \<open>
  \<^bold>\<open>C7.\<close> \<^verbatim>\<open>update\<close> throws its method-cannot-change error exactly when the resource has a
  (truthy) method and the normalised configuration names a (truthy) method that is not
  strictly equal to it. Whenever \<^verbatim>\<open>update\<close> throws, the resource is as it was before the
  call. A configuration object with no \<^verbatim>\<open>method\<close> key is accepted, and the method stays.
\<close>

theorem C7_update_rejects_a_changed_method:
  "((\<exists>r'. update r opts init = Abrupt method_cannot_change r') \<longleftrightarrow>
      (truthy (method r) \<and> truthy (get_prop (normalize_options opts) ''method'')
       \<and> \<not> strict_eq (get_prop (normalize_options opts) ''method'') (method r)))
   \<and> (update r opts init = Abrupt e r' \<longrightarrow> r' = r)
   \<and> (map_of kvs ''method'' = None \<longrightarrow>
        (\<exists>r'. update r (Obj kvs) init = Normal r' \<and> method r' = method r))"
proof -
  let ?o = "normalize_options opts"
  let ?differs = "truthy (method r) \<and> truthy (get_prop ?o ''method'')
       \<and> \<not> strict_eq (get_prop ?o ''method'') (method r)"
  have a1: "?differs" if "update r opts init = Abrupt method_cannot_change r'" for r'
    using that by (auto simp: update_def Let_def method_cannot_change_def split: if_splits)
  have a2: "update r opts init = Abrupt method_cannot_change r" if d: "?differs"
  proof -
    have "\<not> is_nullish ?o"
      using d get_prop_nullish [of ?o "''method''"] by auto
    then show ?thesis
      using d by (simp add: update_def Let_def)
  qed
  have b: "r' = r" if "update r opts init = Abrupt e r'"
    using that by (rule update_Abrupt)
  have c: "\<exists>r'. update r (Obj kvs) init = Normal r' \<and> method r' = method r"
    if "map_of kvs ''method'' = None"
  proof -
    have "\<exists>r'. update r (Obj kvs) init = Normal r'"
      using that by (intro update_succeeds) (simp_all add: normalize_options_Obj)
    then show ?thesis
      using update_Normal(2) by blast
  qed
  show ?thesis
    using a1 a2 b c by blast
qed

text \<open>
  C7 at work on a resource with method \<^verbatim>\<open>a\<close>: a configuration naming method \<^verbatim>\<open>b\<close> is
  refused and nothing changes; one that only sets \<^verbatim>\<open>params\<close> is accepted.
\<close>

theorem C7_witness:
  "update sample (Obj [(''method'', Str ''b''), (''params'', Num 1)]) Undefined
     = Abrupt method_cannot_change sample
   \<and> map_of [(''params'', Num 1)] ''method'' = None
   \<and> (\<exists>r'. update sample (Obj [(''params'', Num 1)]) Undefined = Normal r'
         \<and> method r' = Str ''a'')"
proof -
  have d: "truthy (method sample)
      \<and> truthy (get_prop (normalize_options (Obj [(''method'', Str ''b''), (''params'', Num 1)])) ''method'')
      \<and> \<not> strict_eq (get_prop (normalize_options (Obj [(''method'', Str ''b''), (''params'', Num 1)])) ''method'')
            (method sample)"
    by (simp add: sample_def normalize_options_def strict_eq_def)
  have n: "map_of [(''params'', Num 1)] ''method'' = None"
    by simp
  note thm1 = C7_update_rejects_a_changed_method
      [of sample "Obj [(''method'', Str ''b''), (''params'', Num 1)]" Undefined _ _ "[(''params'', Num 1)]"]
  obtain r' where u: "update sample (Obj [(''method'', Str ''b''), (''params'', Num 1)]) Undefined
      = Abrupt method_cannot_change r'"
    using thm1 d by blast
  then have "r' = sample"
    using thm1 by blast
  moreover have "\<exists>r'. update sample (Obj [(''params'', Num 1)]) Undefined = Normal r'
         \<and> method r' = Str ''a''"
    using thm1 n by (simp add: sample_def)
  ultimately show ?thesis
    using u n by simp
qed

text \<open>
  \<^bold>\<open>C8.\<close> After \<^verbatim>\<open>update\<close> with a configuration object, the one-shot table is empty and the
  persistent table holds, under every configuration key that starts with \<^verbatim>\<open>on\<close>, the value
  of that key and nothing else; whatever was registered before is gone. The key is used as
  it stands, so a later \<^verbatim>\<open>emit(E)\<close> runs exactly what the configuration has under
  \<^verbatim>\<open>'on' + E\<close>.
\<close>

theorem C8_update_rebuilds_the_listener_tables:
  assumes "update r opts init = Normal r'"
    and "normalize_options opts = Obj kvs"
    and "distinct (map fst kvs)"
  shows "onceListeners r' = []
       \<and> handlers_at (listeners r') K
           = (if take 2 K = ''on''
              then (case map_of kvs K of Some h \<Rightarrow> concat_arg h | None \<Rightarrow> [])
              else [])
       \<and> (\<exists>t'. emit env r' E args t = Normal (r', t')
            \<and> calls t'
                = calls t
                  @ concat (map (target (vm r) args)
                      (case map_of kvs (''on'' @ E) of Some h \<Rightarrow> concat_arg h | None \<Rightarrow> [])))"
proof -
  have once: "onceListeners r' = []"
    using update_Normal(8) [OF assms(1)] .
  then have none: "handlers_at (onceListeners r') (''on'' @ E) = []"
    by (simp add: handlers_at_def)
  have hs: "handlers_at (listeners r') (''on'' @ E)
      = (case map_of kvs (''on'' @ E) of Some h \<Rightarrow> concat_arg h | None \<Rightarrow> [])"
    using listeners_after_update [OF assms, of "''on'' @ E"] by simp
  have "\<exists>t'. emit env r' E args t = Normal (r', t')
            \<and> calls t' = calls t @ concat (map (target (vm r) args)
                      (case map_of kvs (''on'' @ E) of Some h \<Rightarrow> concat_arg h | None \<Rightarrow> []))"
    using emit_result [of env r' E args t] emit_no_once [OF none] hs
      update_Normal(1) [OF assms(1)]
    by auto
  then show ?thesis
    using once listeners_after_update [OF assms, of K] by blast
qed

text \<open>
  C8 at work: of the keys \<^verbatim>\<open>onSuccess\<close> and \<^verbatim>\<open>onceError\<close>, both land in the persistent
  table, and \<^verbatim>\<open>emit('Success')\<close> calls the first.
\<close>

theorem C8_witness:
  "update sample (Obj [(''onSuccess'', Fun (UserFn 1)), (''onceError'', Fun (UserFn 2))]) Undefined
     = Normal (sample\<lparr>listeners := [(''onSuccess'', [Fun (UserFn 1)]), (''onceError'', [Fun (UserFn 2)])]\<rparr>)
   \<and> distinct (map fst [(''onSuccess'', Fun (UserFn 1)), (''onceError'', Fun (UserFn 2))])
   \<and> (\<exists>t'. emit quiet
              (sample\<lparr>listeners := [(''onSuccess'', [Fun (UserFn 1)]), (''onceError'', [Fun (UserFn 2)])]\<rparr>)
              ''Success'' [Num 3] []
            = Normal (sample\<lparr>listeners := [(''onSuccess'', [Fun (UserFn 1)]), (''onceError'', [Fun (UserFn 2)])]\<rparr>, t')
          \<and> calls t' = [(1, [Num 3])])"
proof -
  let ?kvs = "[(''onSuccess'', Fun (UserFn 1)), (''onceError'', Fun (UserFn 2))]"
  let ?r' = "sample\<lparr>listeners := [(''onSuccess'', [Fun (UserFn 1)]), (''onceError'', [Fun (UserFn 2)])]\<rparr>"
  have u: "update sample (Obj ?kvs) Undefined = Normal ?r'"
    by (simp add: update_def normalize_options_def listenerKeys_def on_def handlers_at_def
          sample_def js_or_def)
  have n: "normalize_options (Obj ?kvs) = Obj ?kvs"
    by (simp add: normalize_options_def)
  have d: "distinct (map fst ?kvs)"
    by simp
  show ?thesis
    using u d C8_update_rebuilds_the_listener_tables [OF u n d, of _ quiet "''Success''" "[Num 3]" "[]"]
    by (simp add: target_def)
qed

text \<open>
  C8 as the specification words it fails: the value of a key \<^verbatim>\<open>onceSuccess\<close> is not a
  one-shot handler for \<^verbatim>\<open>Success\<close>. It is stored as a persistent handler under
  \<^verbatim>\<open>onceSuccess\<close>, and \<^verbatim>\<open>emit('Success')\<close> does not call it.
\<close>

theorem C8_counterexample:
  "update sample (Obj [(''onceSuccess'', Fun (UserFn 1))]) Undefined
     = Normal (sample\<lparr>listeners := [(''onceSuccess'', [Fun (UserFn 1)])]\<rparr>)
   \<and> emit quiet (sample\<lparr>listeners := [(''onceSuccess'', [Fun (UserFn 1)])]\<rparr>) ''Success'' [] []
     = Normal (sample\<lparr>listeners := [(''onceSuccess'', [Fun (UserFn 1)])]\<rparr>, [])"
  by (simp add: update_def normalize_options_def listenerKeys_def on_def handlers_at_def
        sample_def js_or_def emit_def)

text \<open>
  \<^bold>\<open>C9.\<close> The specification wants \<^verbatim>\<open>updateResource\<close> to construct and register a fresh
  resource for every key that is not registered yet. For the key \<^verbatim>\<open>toString\<close> the code does
  not: on the plain object \<^verbatim>\<open>key in this.resources\<close> is true of a name every object
  inherits, what is found there has no \<^verbatim>\<open>update\<close>, and the call ends in a TypeError with
  nothing registered, although the constructor accepts the configuration.
\<close>

theorem C9_inherited_name_is_never_registered:
  "updateResource quiet (Obj []) Map.empty ''toString'' (Obj [(''method'', Str ''a'')])
       Undefined []
     = Abrupt TypeError (Map.empty, [])
   \<and> construct (Obj []) (Obj [(''method'', Str ''a'')]) Undefined = Inr sample"
  by (simp add: updateResource_def object_prototype_keys_def sample_constructed)

text \<open>
  \<^bold>\<open>C10.\<close> \<^verbatim>\<open>update\<close> and the constructor choose the payload and the parameters with
  \<^verbatim>\<open>||\<close>: when the initial value and the configuration's \<^verbatim>\<open>default\<close> are both falsy the
  payload is \<^verbatim>\<open>null\<close>, and falsy \<^verbatim>\<open>params\<close> become \<^verbatim>\<open>null\<close>.
\<close>

theorem C10_falsy_data_and_params_become_null:
  "(update r opts init = Normal r' \<and> \<not> truthy init
      \<and> \<not> truthy (get_prop (normalize_options opts) ''default'') \<longrightarrow> data r' = Null)
   \<and> (update r opts init = Normal r'
      \<and> \<not> truthy (get_prop (normalize_options opts) ''params'') \<longrightarrow> params r' = Null)
   \<and> (construct v opts init = Inr r' \<and> \<not> truthy init
      \<and> \<not> truthy (get_prop (normalize_options opts) ''default'') \<longrightarrow> data r' = Null)
   \<and> (construct v opts init = Inr r'
      \<and> \<not> truthy (get_prop (normalize_options opts) ''params'') \<longrightarrow> params r' = Null)"
proof -
  have u: "data r' = js_or init (js_or (get_prop (normalize_options opts) ''default'') Null)"
    "params r' = js_or (get_prop (normalize_options opts) ''params'') Null"
    if "update r0 opts init = Normal r'" for r0
    using update_Normal(9) [OF that] update_Normal(3) [OF that] by simp_all
  have idem: "normalize_options (normalize_options opts) = normalize_options opts"
    by (cases opts) (simp_all add: normalize_options_def)
  have c: "\<exists>r0. update r0 (normalize_options opts) init = Normal r'"
    if "construct v opts init = Inr r'"
  proof -
    have "opts \<noteq> Undefined"
      using that by (auto simp: construct_def Let_def normalize_options_def)
    then show ?thesis
      using that by (auto simp: construct_def Let_def split: if_splits completion.splits)
  qed
  have cu: "data r' = js_or init (js_or (get_prop (normalize_options opts) ''default'') Null)"
    "params r' = js_or (get_prop (normalize_options opts) ''params'') Null"
    if built: "construct v opts init = Inr r'"
  proof -
    obtain r0 where r0: "update r0 (normalize_options opts) init = Normal r'"
      using c [OF built] by blast
    show "data r' = js_or init (js_or (get_prop (normalize_options opts) ''default'') Null)"
      using update_Normal(9) [OF r0] by (simp add: idem)
    show "params r' = js_or (get_prop (normalize_options opts) ''params'') Null"
      using update_Normal(3) [OF r0] by (simp add: idem)
  qed
  show ?thesis
    using u cu by (auto simp: js_or_def)
qed

text \<open>
  C10 at work: \<^verbatim>\<open>0\<close>, the empty string and \<^verbatim>\<open>false\<close> all end up as \<^verbatim>\<open>null\<close>.
\<close>

theorem C10_witness:
  "(\<exists>r'. construct (Obj [])
            (Obj [(''method'', Str ''a''), (''params'', Bool False), (''default'', Str '''')])
            (Num 0) = Inr r'
       \<and> \<not> truthy (Num 0)
       \<and> \<not> truthy (get_prop (normalize_options
              (Obj [(''method'', Str ''a''), (''params'', Bool False), (''default'', Str '''')])) ''default'')
       \<and> \<not> truthy (get_prop (normalize_options
              (Obj [(''method'', Str ''a''), (''params'', Bool False), (''default'', Str '''')])) ''params'')
       \<and> data r' = Null \<and> params r' = Null)
   \<and> (\<exists>r'. update sample (Obj [(''params'', Num 0), (''default'', Bool False)]) (Str '''') = Normal r'
       \<and> data r' = Null \<and> params r' = Null)"
proof -
  let ?o = "Obj [(''method'', Str ''a''), (''params'', Bool False), (''default'', Str '''')]"
  let ?o2 = "Obj [(''params'', Num 0), (''default'', Bool False)]"
  obtain r1 where c: "construct (Obj []) ?o (Num 0) = Inr r1"
    by (simp add: construct_def normalize_options_def update_def strict_eq_def blank_def)
  have f: "\<not> truthy (Num 0)" "\<not> truthy (get_prop (normalize_options ?o) ''default'')"
    "\<not> truthy (get_prop (normalize_options ?o) ''params'')"
    by (simp_all add: normalize_options_def)
  have d1: "data r1 = Null \<and> params r1 = Null"
    using C10_falsy_data_and_params_become_null [of _ ?o "Num 0" r1 "Obj []"] c f by blast
  obtain r2 where u: "update sample ?o2 (Str '''') = Normal r2"
    by (simp add: update_def normalize_options_def)
  have f2: "\<not> truthy (Str '''')" "\<not> truthy (get_prop (normalize_options ?o2) ''default'')"
    "\<not> truthy (get_prop (normalize_options ?o2) ''params'')"
    by (simp_all add: normalize_options_def)
  have d2: "data r2 = Null \<and> params r2 = Null"
    using C10_falsy_data_and_params_become_null [of sample ?o2 "Str ''''" r2] u f2 by blast
  show ?thesis
    using c f d1 u d2 by blast
qed

end
